theory Spec2Isabelle
  imports Complex_Main
begin

section \<open>Data model of \<open>optimised_peterson_algorithm.py\<close>\<close>

text \<open>
  The source raises a single exception class, \<open>PetersonError\<close>, told apart by its message.
  Each constructor stands for one message template:
  \<^item> \<open>InvalidProcessId p\<close>: "Invalid process ID: p. Must be 0 or 1." (lines 34 and 62);
  \<^item> \<open>LockTimeout p\<close>: "Process p timed out waiting for lock" (line 48);
  \<^item> \<open>LockAcquisitionFailure e\<close>: "Lock acquisition failed: " followed by the message
    of \<open>e\<close> (line 58).
  \<open>TypeError\<close> is Python's own exception, raised by \<open>current + amount\<close> (line 95) when
  \<open>amount\<close> is not a number; it is not a \<open>PetersonError\<close>.
\<close>

datatype error =
    InvalidProcessId int
  | LockTimeout int
  | LockAcquisitionFailure error
  | TypeError

text \<open>The dataclass \<open>ProcessStats\<close> (lines 18-23).\<close>

record ProcessStats =
  entries :: int
  wait_time :: real
  fails :: int

text \<open>
  The fields of a \<open>PetersonLock\<close> object (lines 26-30): \<open>flag\<close> is a Python list,
  \<open>stats\<close> a dict keyed by the process id, \<open>lock_timeout\<close> the field \<open>_lock_timeout\<close>.
\<close>

record PetersonLock =
  flag :: "bool list"
  turn :: int
  stats :: "int \<rightharpoonup> ProcessStats"
  lock_timeout :: real

definition ProcessStats_init :: ProcessStats where
  "ProcessStats_init = \<lparr>entries = 0, wait_time = 0, fails = 0\<rparr>"

definition PetersonLock_init :: PetersonLock where
  "PetersonLock_init =
     \<lparr>flag = [False, False], turn = 0,
      stats = [0 \<mapsto> ProcessStats_init, 1 \<mapsto> ProcessStats_init],
      lock_timeout = 5\<rparr>"

text \<open>
  The shape the constructor builds and no method changes: a two-element \<open>flag\<close> list and a
  \<open>stats\<close> dict with exactly the keys 0 and 1. On such a lock no subscript of the methods
  below can raise \<open>IndexError\<close> or \<open>KeyError\<close>.
\<close>

definition wf_lock :: "PetersonLock \<Rightarrow> bool" where
  "wf_lock L = (length (flag L) = 2 \<and> dom (stats L) = {0, 1})"

text \<open>
  \<open>time.time()\<close> is an input of the program. A clock is the list of the values that the
  successive calls of \<open>time.time()\<close> return; a function that reads the clock takes the head
  and hands on the tail. When the list is used up the function has not returned yet: its
  result is \<open>None\<close>. \<open>time.sleep\<close> has no effect on the program state.
\<close>

type_synonym clock = "real list"

section \<open>PetersonLock\<close>

text \<open>\<open>self.flag[process_id] = b\<close>\<close>

definition set_flag :: "int \<Rightarrow> bool \<Rightarrow> PetersonLock \<Rightarrow> PetersonLock" where
  "set_flag pid b L = L\<lparr>flag := (flag L)[nat pid := b]\<rparr>"

text \<open>\<open>self.stats[process_id].fails += 1\<close>\<close>

definition add_fails :: "int \<Rightarrow> PetersonLock \<Rightarrow> PetersonLock" where
  "add_fails pid L =
     L\<lparr>stats := (stats L)(pid \<mapsto> (the (stats L pid))\<lparr>fails := fails (the (stats L pid)) + 1\<rparr>)\<rparr>"

text \<open>\<open>self.stats[process_id].entries += 1\<close>\<close>

definition add_entries :: "int \<Rightarrow> PetersonLock \<Rightarrow> PetersonLock" where
  "add_entries pid L =
     L\<lparr>stats := (stats L)(pid \<mapsto> (the (stats L pid))\<lparr>entries := entries (the (stats L pid)) + 1\<rparr>)\<rparr>"

text \<open>\<open>self.stats[process_id].wait_time += d\<close>\<close>

definition add_wait_time :: "int \<Rightarrow> real \<Rightarrow> PetersonLock \<Rightarrow> PetersonLock" where
  "add_wait_time pid d L =
     L\<lparr>stats := (stats L)(pid \<mapsto> (the (stats L pid))\<lparr>wait_time := wait_time (the (stats L pid)) + d\<rparr>)\<rparr>"

text \<open>
  The wait loop of \<open>lock\<close> (lines 44-49), run with no other thread writing in between.
  Each pass whose condition holds reads the clock once (line 45); on a timeout the flag is
  reset, \<open>fails\<close> is counted and the timeout error is raised (lines 46-48), otherwise the
  thread sleeps and tests again.
\<close>

fun wait_loop ::
  "int \<Rightarrow> real \<Rightarrow> PetersonLock \<Rightarrow> clock \<Rightarrow> ((error + unit) \<times> PetersonLock \<times> clock) option" where
  "wait_loop pid start_time L clk =
     (if flag L ! nat (1 - pid) \<and> turn L = 1 - pid then
        (case clk of
           [] \<Rightarrow> None
         | now # ticks \<Rightarrow>
             if now - start_time > lock_timeout L then
               Some (Inl (LockTimeout pid), add_fails pid (set_flag pid False L), ticks)
             else wait_loop pid start_time L ticks)
      else Some (Inr (), L, clk))"

declare wait_loop.simps [simp del]

text \<open>
  \<open>PetersonLock.lock\<close> (lines 32-58). The identity check is outside the \<open>try\<close>; an
  exception of the \<open>try\<close> body reaches the handler of lines 55-58, which clears the flag and
  raises the wrapped error.
\<close>

definition lock ::
  "PetersonLock \<Rightarrow> int \<Rightarrow> clock \<Rightarrow> ((error + bool) \<times> PetersonLock \<times> clock) option" where
  "lock L pid clk =
     (if pid \<noteq> 0 \<and> pid \<noteq> 1 then Some (Inl (InvalidProcessId pid), L, clk)
      else
        (case clk of
           [] \<Rightarrow> None
         | start_time # c1 \<Rightarrow>
             (case wait_loop pid start_time ((set_flag pid True L)\<lparr>turn := 1 - pid\<rparr>) c1 of
                None \<Rightarrow> None
              | Some (Inl e, L1, c2) \<Rightarrow>
                  Some (Inl (LockAcquisitionFailure e), set_flag pid False L1, c2)
              | Some (Inr _, L1, c2) \<Rightarrow>
                  (case c2 of
                     [] \<Rightarrow> None
                   | now # c3 \<Rightarrow>
                       Some (Inr True,
                             add_wait_time pid (now - start_time) (add_entries pid L1), c3)))))"

text \<open>
  \<open>PetersonLock.unlock\<close> (lines 60-68). On a well-formed lock the assignment of line 65
  cannot raise, so the handler of lines 66-68 is never entered.
\<close>

definition unlock :: "PetersonLock \<Rightarrow> int \<Rightarrow> (error + unit) \<times> PetersonLock" where
  "unlock L pid =
     (if pid \<noteq> 0 \<and> pid \<noteq> 1 then (Inl (InvalidProcessId pid), L)
      else (Inr (), set_flag pid False L))"

text \<open>
  \<open>PetersonLock.get_stats\<close> (lines 70-79). The result dict is keyed by the process id (the
  source's key is the string "Process_" followed by the id). The method returns the
  receiver as every method of the model does.
\<close>

record stats_view =
  view_entries :: int
  avg_wait_time :: real
  view_fails :: int

definition view_of :: "ProcessStats \<Rightarrow> stats_view" where
  "view_of st =
     \<lparr>view_entries = entries st,
      avg_wait_time = (if entries st > 0 then wait_time st / real_of_int (entries st) else 0),
      view_fails = fails st\<rparr>"

definition get_stats :: "PetersonLock \<Rightarrow> (int \<rightharpoonup> stats_view) \<times> PetersonLock" where
  "get_stats L = (\<lambda>pid. map_option view_of (stats L pid), L)"

text \<open>
  A sequence of calls on one lock by one caller after the other, each running to its end
  before the next starts. The results of the calls are dropped, as a caller that catches
  \<open>PetersonError\<close> does.
\<close>

datatype operation = Lock int | Unlock int | GetStats

fun run_operations :: "PetersonLock \<Rightarrow> operation list \<Rightarrow> clock \<Rightarrow> (PetersonLock \<times> clock) option" where
  "run_operations L [] clk = Some (L, clk)"
| "run_operations L (Lock pid # ops) clk =
     (case lock L pid clk of
        None \<Rightarrow> None
      | Some (_, L1, c1) \<Rightarrow> run_operations L1 ops c1)"
| "run_operations L (Unlock pid # ops) clk = run_operations (snd (unlock L pid)) ops clk"
| "run_operations L (GetStats # ops) clk = run_operations (snd (get_stats L)) ops clk"

section \<open>SharedResource\<close>

text \<open>
  Python is dynamically typed: \<open>increment\<close> takes whatever object it is given as
  \<open>amount\<close>. \<open>PyInt a\<close> is the integer \<open>a\<close>; \<open>PyOther\<close> is an object that an integer
  cannot be added to (\<open>None\<close>, a string, a list), for which line 95 raises \<open>TypeError\<close>.
\<close>

datatype pyobj = PyInt int | PyOther

text \<open>The dict appended to \<open>access_log\<close> (lines 98-104).\<close>

record AccessLogEntry =
  process_id :: int
  operation :: string
  amount :: pyobj
  timestamp :: real
  duration :: real

text \<open>
  The fields of a \<open>SharedResource\<close> (lines 82-85): \<open>val\<close> is the field \<open>value\<close> and
  \<open>lck\<close> the field \<open>lock\<close>.
\<close>

record SharedResource =
  val :: int
  lck :: PetersonLock
  access_log :: "AccessLogEntry list"

definition SharedResource_init :: SharedResource where
  "SharedResource_init = \<lparr>val = 0, lck = PetersonLock_init, access_log = []\<rparr>"

text \<open>
  The \<open>finally\<close> clause of \<open>increment\<close> (lines 111-112): \<open>unlock\<close> runs whatever the
  outcome \<open>res\<close> of the \<open>try\<close> statement is. An exception raised by \<open>unlock\<close> itself
  replaces the pending one; otherwise the pending outcome goes on to the caller.
\<close>

definition finally_unlock ::
  "error + unit \<Rightarrow> SharedResource \<Rightarrow> int \<Rightarrow> clock \<Rightarrow> ((error + unit) \<times> SharedResource \<times> clock) option" where
  "finally_unlock res S pid clk =
     (case unlock (lck S) pid of
        (Inl e, L1) \<Rightarrow> Some (Inl e, S\<lparr>lck := L1\<rparr>, clk)
      | (Inr _, L1) \<Rightarrow> Some (res, S\<lparr>lck := L1\<rparr>, clk))"

text \<open>
  \<open>SharedResource.increment\<close> (lines 87-112). The clock is read at line 89, inside
  \<open>lock\<close>, and at lines 102 and 103. A \<open>PetersonError\<close> of \<open>lock\<close> is logged and raised
  again by the handler of lines 108-110; a \<open>TypeError\<close> of line 95 passes that handler.
  Logging writes to the console only.
\<close>

definition increment ::
  "SharedResource \<Rightarrow> int \<Rightarrow> pyobj \<Rightarrow> clock \<Rightarrow> ((error + unit) \<times> SharedResource \<times> clock) option" where
  "increment S pid amt clk =
     (case clk of
        [] \<Rightarrow> None
      | start_time # c1 \<Rightarrow>
          (case lock (lck S) pid c1 of
             None \<Rightarrow> None
           | Some (Inl e, L1, c2) \<Rightarrow> finally_unlock (Inl e) (S\<lparr>lck := L1\<rparr>) pid c2
           | Some (Inr _, L1, c2) \<Rightarrow>
               (let current = val S in
                case amt of
                  PyOther \<Rightarrow> finally_unlock (Inl TypeError) (S\<lparr>lck := L1\<rparr>) pid c2
                | PyInt a \<Rightarrow>
                    (case c2 of
                       t1 # t2 # c3 \<Rightarrow>
                         finally_unlock (Inr ())
                           (S\<lparr>lck := L1, val := current + a,
                              access_log := access_log S @
                                [\<lparr>process_id = pid, operation = ''increment'', amount = amt,
                                  timestamp = t1, duration = t2 - start_time\<rparr>]\<rparr>)
                           pid c3
                     | _ \<Rightarrow> None))))"

text \<open>
  The \<open>increment\<close> calls of the two workers, serialized: one call runs to its end before
  the next one starts. The list gives the calls in the order in which they run, each with
  its identity and its amount; the results are collected in the same order.
\<close>

fun run_increments ::
  "SharedResource \<Rightarrow> (int \<times> pyobj) list \<Rightarrow> clock \<Rightarrow> ((error + unit) list \<times> SharedResource \<times> clock) option" where
  "run_increments S [] clk = Some ([], S, clk)"
| "run_increments S ((pid, amt) # calls) clk =
     (case increment S pid amt clk of
        None \<Rightarrow> None
      | Some (r, S1, c1) \<Rightarrow>
          (case run_increments S1 calls c1 of
             None \<Rightarrow> None
           | Some (rs, S2, c2) \<Rightarrow> Some (r # rs, S2, c2)))"

section \<open>Two threads on one lock\<close>

text \<open>
  The interleaved execution of two threads, each bound to one identity, on a shared
  \<open>PetersonLock\<close>. A label names the line of \<open>lock\<close> that the thread executes next;
  line 44 has one label for each of its two reads. \<open>Idle\<close> is a thread outside \<open>lock\<close>
  that does not hold the lock, \<open>Holding\<close> a thread to which \<open>lock\<close> has returned
  \<open>True\<close> and which has not called \<open>unlock\<close> yet.
\<close>

datatype label =
  Idle | L40 | L41 | L44_flag | L44_turn | L45 | L46 | L47 | L49 | L51 | L52 | L56 | Holding

record thread =
  pc :: label
  start_time_of :: real

record system =
  shared :: PetersonLock
  thr :: "int \<Rightarrow> thread"

definition system_init :: system where
  "system_init = \<lparr>shared = PetersonLock_init, thr = (\<lambda>_. \<lparr>pc = Idle, start_time_of = 0\<rparr>)\<rparr>"

text \<open>What an idle thread does next: it calls \<open>lock\<close> or \<open>unlock\<close> with its own identity.\<close>

datatype request = Acquire | Release

definition goto :: "int \<Rightarrow> label \<Rightarrow> system \<Rightarrow> system" where
  "goto pid l s = s\<lparr>thr := (thr s)(pid := (thr s pid)\<lparr>pc := l\<rparr>)\<rparr>"

text \<open>
  One step of thread \<open>pid\<close>: at most one read or one write of a shared variable, on a
  memory that shows every write to the other thread at once. \<open>now\<close> is the
  value of the clock at the step, \<open>req\<close> the call an idle thread makes. A thread calls
  \<open>unlock\<close> when it holds the lock and may call it when idle (as the \<open>finally\<close> clause of
  \<open>increment\<close> does after a failed \<open>lock\<close>); \<open>unlock\<close> is the single write of line 65.
\<close>

definition step :: "int \<times> real \<times> request \<Rightarrow> system \<Rightarrow> system" where
  "step ev s =
     (case ev of (pid, now, req) \<Rightarrow>
        if pid \<noteq> 0 \<and> pid \<noteq> 1 then s
        else
          (let L = shared s; t = thr s pid in
           case pc t of
             Idle \<Rightarrow>
               (case req of
                  Acquire \<Rightarrow> s\<lparr>thr := (thr s)(pid := \<lparr>pc = L40, start_time_of = now\<rparr>)\<rparr>
                | Release \<Rightarrow> s\<lparr>shared := set_flag pid False L\<rparr>)
           | L40 \<Rightarrow> goto pid L41 (s\<lparr>shared := set_flag pid True L\<rparr>)
           | L41 \<Rightarrow> goto pid L44_flag (s\<lparr>shared := L\<lparr>turn := 1 - pid\<rparr>\<rparr>)
           | L44_flag \<Rightarrow> if flag L ! nat (1 - pid) then goto pid L44_turn s else goto pid L51 s
           | L44_turn \<Rightarrow> if turn L = 1 - pid then goto pid L45 s else goto pid L51 s
           | L45 \<Rightarrow>
               if now - start_time_of t > lock_timeout L then goto pid L46 s else goto pid L49 s
           | L46 \<Rightarrow> goto pid L47 (s\<lparr>shared := set_flag pid False L\<rparr>)
           | L47 \<Rightarrow> goto pid L56 (s\<lparr>shared := add_fails pid L\<rparr>)
           | L49 \<Rightarrow> goto pid L44_flag s
           | L51 \<Rightarrow> goto pid L52 (s\<lparr>shared := add_entries pid L\<rparr>)
           | L52 \<Rightarrow> goto pid Holding (s\<lparr>shared := add_wait_time pid (now - start_time_of t) L\<rparr>)
           | L56 \<Rightarrow> goto pid Idle (s\<lparr>shared := set_flag pid False L\<rparr>)
           | Holding \<Rightarrow> goto pid Idle (s\<lparr>shared := set_flag pid False L\<rparr>)))"

text \<open>A schedule is the list of the steps in the order in which they happen.\<close>

definition exec :: "(int \<times> real \<times> request) list \<Rightarrow> system \<Rightarrow> system" where
  "exec evs s = foldl (\<lambda>s' ev. step ev s') s evs"

definition in_critical_section :: "system \<Rightarrow> int \<Rightarrow> bool" where
  "in_critical_section s pid = (pc (thr s pid) = Holding)"

text \<open>
  The invariant of the interleaved execution. \<open>flag_raised\<close> are the labels at which the
  thread's own flag is set, \<open>in_loop\<close> the labels of the wait loop after the write of
  \<open>turn\<close>, \<open>past_loop\<close> the labels after the loop has been left.
\<close>

definition past_loop :: "label set" where
  "past_loop = {L51, L52, Holding}"

definition in_loop :: "label set" where
  "in_loop = {L44_flag, L44_turn, L45, L49}"

definition flag_raised :: "label set" where
  "flag_raised = {L41, L44_flag, L44_turn, L45, L46, L49, L51, L52, Holding}"

definition peterson_inv :: "system \<Rightarrow> bool" where
  "peterson_inv s =
     (length (flag (shared s)) = 2 \<and>
      (turn (shared s) = 0 \<or> turn (shared s) = 1) \<and>
      (pc (thr s 0) \<notin> flag_raised \<or> flag (shared s) ! 0) \<and>
      (pc (thr s 1) \<notin> flag_raised \<or> flag (shared s) ! 1) \<and>
      (pc (thr s 0) \<notin> past_loop \<or> pc (thr s 1) \<notin> in_loop \<or> turn (shared s) = 0) \<and>
      (pc (thr s 1) \<notin> past_loop \<or> pc (thr s 0) \<notin> in_loop \<or> turn (shared s) = 1) \<and>
      (pc (thr s 0) \<notin> past_loop \<or> pc (thr s 1) \<notin> past_loop))"

text \<open>The integer an amount stands for, and the acquisitions an identity has finished.\<close>

definition int_of :: "pyobj \<Rightarrow> int" where
  "int_of v = (case v of PyInt a \<Rightarrow> a | PyOther \<Rightarrow> 0)"

definition attempts_done :: "PetersonLock \<Rightarrow> int \<Rightarrow> int" where
  "attempts_done L i = entries (the (stats L i)) + fails (the (stats L i))"


section \<open>The wait loop and the results of \<open>lock\<close>\<close>

lemma wf_lock_init: "wf_lock PetersonLock_init"
  by (auto simp: wf_lock_def PetersonLock_init_def)

lemma wait_loop_exit:
  "\<not> (flag L ! nat (1 - pid) \<and> turn L = 1 - pid) \<Longrightarrow> wait_loop pid st L clk = Some (Inr (), L, clk)"
  using wait_loop.simps[of pid st L clk] by auto

lemma wait_loop_waiting:
  "flag L ! nat (1 - pid) \<and> turn L = 1 - pid \<Longrightarrow> \<forall>t\<in>set ticks. \<not> t - st > lock_timeout L
   \<Longrightarrow> wait_loop pid st L ticks = None"
proof (induction ticks)
  case Nil
  then show ?case using wait_loop.simps[of pid st L "[]"] by simp
next
  case (Cons t ticks)
  then show ?case using wait_loop.simps[of pid st L "t # ticks"] by simp
qed

lemma wait_loop_timeout:
  "flag L ! nat (1 - pid) \<and> turn L = 1 - pid \<Longrightarrow> \<exists>t\<in>set ticks. t - st > lock_timeout L
   \<Longrightarrow> wait_loop pid st L ticks =
       Some (Inl (LockTimeout pid), add_fails pid (set_flag pid False L),
             tl (dropWhile (\<lambda>t. \<not> t - st > lock_timeout L) ticks))"
proof (induction ticks)
  case Nil
  then show ?case by simp
next
  case (Cons t ticks)
  show ?case
  proof (cases "t - st > lock_timeout L")
    case True
    with Cons.prems(1) show ?thesis using wait_loop.simps[of pid st L "t # ticks"] by simp
  next
    case False
    with Cons.prems have "\<exists>t\<in>set ticks. t - st > lock_timeout L" by auto
    with Cons.IH Cons.prems(1) False show ?thesis
      using wait_loop.simps[of pid st L "t # ticks"] by simp
  qed
qed

lemma wait_loop_result:
  "wait_loop pid st L clk = Some (r, L', clk') \<Longrightarrow>
     (r = Inr () \<and> L' = L \<and> clk' = clk \<and> \<not> (flag L ! nat (1 - pid) \<and> turn L = 1 - pid)) \<or>
     (r = Inl (LockTimeout pid) \<and> L' = add_fails pid (set_flag pid False L) \<and>
      (flag L ! nat (1 - pid) \<and> turn L = 1 - pid))"
proof (induction clk)
  case Nil
  then show ?case using wait_loop.simps[of pid st L "[]"] by (auto split: if_splits)
next
  case (Cons t ticks)
  from Cons.prems show ?case
    using wait_loop.simps[of pid st L "t # ticks"] by (auto split: if_splits dest: Cons.IH)
qed

lemma wf_lock_set_flag: "wf_lock L \<Longrightarrow> wf_lock (set_flag pid b L)"
  by (simp add: wf_lock_def set_flag_def)

lemma wf_lock_turn: "wf_lock L \<Longrightarrow> wf_lock (L\<lparr>turn := k\<rparr>)"
  by (simp add: wf_lock_def)

lemma wf_lock_add_fails: "wf_lock L \<Longrightarrow> pid = 0 \<or> pid = 1 \<Longrightarrow> wf_lock (add_fails pid L)"
  by (auto simp: wf_lock_def add_fails_def)

lemma wf_lock_add_entries: "wf_lock L \<Longrightarrow> pid = 0 \<or> pid = 1 \<Longrightarrow> wf_lock (add_entries pid L)"
  by (auto simp: wf_lock_def add_entries_def)

lemma wf_lock_add_wait_time: "wf_lock L \<Longrightarrow> pid = 0 \<or> pid = 1 \<Longrightarrow> wf_lock (add_wait_time pid d L)"
  by (auto simp: wf_lock_def add_wait_time_def)

lemmas wf_lock_intros =
  wf_lock_set_flag wf_lock_turn wf_lock_add_fails wf_lock_add_entries wf_lock_add_wait_time

text \<open>What \<open>lock\<close> returns for a valid identity, by the state of the other flag.\<close>

lemma lock_free:
  assumes "pid = 0 \<or> pid = 1" "length (flag L) = 2" "\<not> flag L ! nat (1 - pid)"
  shows "lock L pid (start # now # rest) =
           Some (Inr True,
                 add_wait_time pid (now - start)
                   (add_entries pid ((set_flag pid True L)\<lparr>turn := 1 - pid\<rparr>)), rest)"
proof -
  let ?L1 = "(set_flag pid True L)\<lparr>turn := 1 - pid\<rparr>"
  from assms have "\<not> flag ?L1 ! nat (1 - pid)"
    by (auto simp: set_flag_def)
  then have "wait_loop pid start ?L1 (now # rest) = Some (Inr (), ?L1, now # rest)"
    by (simp add: wait_loop_exit)
  with assms(1) show ?thesis by (auto simp: lock_def)
qed

lemma lock_busy_timeout:
  assumes "pid = 0 \<or> pid = 1" "length (flag L) = 2" "flag L ! nat (1 - pid)"
    and "\<exists>t\<in>set ticks. t - start > lock_timeout L"
  shows "lock L pid (start # ticks) =
           Some (Inl (LockAcquisitionFailure (LockTimeout pid)),
                 set_flag pid False
                   (add_fails pid (set_flag pid False ((set_flag pid True L)\<lparr>turn := 1 - pid\<rparr>))),
                 tl (dropWhile (\<lambda>t. \<not> t - start > lock_timeout L) ticks))"
proof -
  let ?L1 = "(set_flag pid True L)\<lparr>turn := 1 - pid\<rparr>"
  from assms have c: "flag ?L1 ! nat (1 - pid) \<and> turn ?L1 = 1 - pid"
    by (auto simp: set_flag_def)
  have t: "\<exists>t\<in>set ticks. t - start > lock_timeout ?L1"
    using assms(4) by (simp add: set_flag_def)
  have "lock_timeout ?L1 = lock_timeout L" by (simp add: set_flag_def)
  with wait_loop_timeout[OF c t] assms(1) show ?thesis
    by (auto simp: lock_def)
qed

lemma lock_busy_waiting:
  assumes "pid = 0 \<or> pid = 1" "length (flag L) = 2" "flag L ! nat (1 - pid)"
    and "\<forall>t\<in>set ticks. \<not> t - start > lock_timeout L"
  shows "lock L pid (start # ticks) = None"
proof -
  let ?L1 = "(set_flag pid True L)\<lparr>turn := 1 - pid\<rparr>"
  from assms have c: "flag ?L1 ! nat (1 - pid) \<and> turn ?L1 = 1 - pid"
    by (auto simp: set_flag_def)
  have t: "\<forall>t\<in>set ticks. \<not> t - start > lock_timeout ?L1"
    using assms(4) by (simp add: set_flag_def)
  from wait_loop_waiting[OF c t] assms(1) show ?thesis
    by (auto simp: lock_def)
qed

text \<open>Every result of \<open>lock\<close> for a valid identity is one of the two above.\<close>

lemma lock_result:
  assumes "pid = 0 \<or> pid = 1" "length (flag L) = 2"
    and "lock L pid clk = Some (r, L', clk')"
  shows "(r = Inr True \<and> \<not> flag L ! nat (1 - pid) \<and>
          (\<exists>start now. clk = start # now # clk' \<and>
             L' = add_wait_time pid (now - start)
                    (add_entries pid ((set_flag pid True L)\<lparr>turn := 1 - pid\<rparr>)))) \<or>
         (r = Inl (LockAcquisitionFailure (LockTimeout pid)) \<and> flag L ! nat (1 - pid) \<and>
          L' = set_flag pid False
                 (add_fails pid (set_flag pid False ((set_flag pid True L)\<lparr>turn := 1 - pid\<rparr>))))"
proof (cases clk)
  case Nil
  with assms show ?thesis by (auto simp: lock_def)
next
  case (Cons start ticks)
  show ?thesis
  proof (cases "flag L ! nat (1 - pid)")
    case False
    show ?thesis
    proof (cases ticks)
      case Nil
      let ?L1 = "(set_flag pid True L)\<lparr>turn := 1 - pid\<rparr>"
      from assms False have "\<not> flag ?L1 ! nat (1 - pid)" by (auto simp: set_flag_def)
      then have "wait_loop pid start ?L1 [] = Some (Inr (), ?L1, [])"
        by (simp add: wait_loop_exit)
      with assms Cons Nil show ?thesis by (auto simp: lock_def)
    next
      case (Cons now rest)
      with lock_free[OF assms(1,2) False, of start now rest] assms(3) \<open>clk = start # ticks\<close> False
      show ?thesis by auto
    qed
  next
    case True
    show ?thesis
    proof (cases "\<exists>t\<in>set ticks. t - start > lock_timeout L")
      case True
      with lock_busy_timeout[OF assms(1,2) \<open>flag L ! nat (1 - pid)\<close>, of ticks start] assms(3) Cons
        \<open>flag L ! nat (1 - pid)\<close>
      show ?thesis by auto
    next
      case False
      then have "\<forall>t\<in>set ticks. \<not> t - start > lock_timeout L" by auto
      with lock_busy_waiting[OF assms(1,2) True, of ticks start] assms(3) Cons
      show ?thesis by simp
    qed
  qed
qed

section \<open>Mutual exclusion\<close>

lemmas label_sets = past_loop_def in_loop_def flag_raised_def
lemmas lock_writes = set_flag_def add_fails_def add_entries_def add_wait_time_def

lemma inv_init: "peterson_inv system_init"
  by (simp add: peterson_inv_def system_init_def PetersonLock_init_def label_sets)

lemma inv_step0: "peterson_inv s \<Longrightarrow> peterson_inv (step (0, now, req) s)"
  by (cases "pc (thr s 0)"; cases req)
     (auto simp: peterson_inv_def step_def goto_def Let_def label_sets lock_writes)

lemma inv_step1: "peterson_inv s \<Longrightarrow> peterson_inv (step (1, now, req) s)"
  by (cases "pc (thr s 1)"; cases req)
     (auto simp: peterson_inv_def step_def goto_def Let_def label_sets lock_writes)

lemma inv_step: "peterson_inv s \<Longrightarrow> peterson_inv (step ev s)"
proof (cases ev)
  case (fields pid now req)
  assume inv: "peterson_inv s"
  show ?thesis
  proof (cases "pid = 0 \<or> pid = 1")
    case True
    with inv fields show ?thesis using inv_step0 inv_step1 by auto
  next
    case False
    with inv fields show ?thesis by (simp add: step_def)
  qed
qed

lemma inv_exec: "peterson_inv s \<Longrightarrow> peterson_inv (exec evs s)"
  unfolding exec_def by (induction evs arbitrary: s) (simp_all add: inv_step)

text \<open>
  C1 (mutual exclusion). Whatever the schedule of the steps of the two threads from the
  initial state, at no moment are both identities between a successful \<open>lock\<close> and the
  matching \<open>unlock\<close>.
\<close>

theorem mutual_exclusion:
  "\<not> (in_critical_section (exec evs system_init) 0 \<and> in_critical_section (exec evs system_init) 1)"
  using inv_exec[OF inv_init, of evs]
  by (auto simp: peterson_inv_def in_critical_section_def past_loop_def)

theorem mutual_exclusion_witness:
  "in_critical_section
     (exec [(0, 0, Acquire), (0, 0, Acquire), (1, 0, Acquire), (0, 0, Acquire), (1, 0, Acquire),
            (0, 0, Acquire), (1, 0, Acquire), (0, 0, Acquire), (0, 0, Acquire), (0, 1, Acquire),
            (1, 0, Acquire), (1, 0, Acquire)] system_init) 0 \<and>
   \<not> in_critical_section
     (exec [(0, 0, Acquire), (0, 0, Acquire), (1, 0, Acquire), (0, 0, Acquire), (1, 0, Acquire),
            (0, 0, Acquire), (1, 0, Acquire), (0, 0, Acquire), (0, 0, Acquire), (0, 1, Acquire),
            (1, 0, Acquire), (1, 0, Acquire)] system_init) 1 \<and>
   pc (thr
     (exec [(0, 0, Acquire), (0, 0, Acquire), (1, 0, Acquire), (0, 0, Acquire), (1, 0, Acquire),
            (0, 0, Acquire), (1, 0, Acquire), (0, 0, Acquire), (0, 0, Acquire), (0, 1, Acquire),
            (1, 0, Acquire), (1, 0, Acquire)] system_init) 1) = L45"
proof -
  let ?s = "exec [(0, 0, Acquire), (0, 0, Acquire), (1, 0, Acquire), (0, 0, Acquire), (1, 0, Acquire),
            (0, 0, Acquire), (1, 0, Acquire), (0, 0, Acquire), (0, 0, Acquire), (0, 1, Acquire),
            (1, 0, Acquire), (1, 0, Acquire)] system_init"
  have a: "pc (thr ?s 0) = Holding" and b: "pc (thr ?s 1) = L45"
    by (simp_all add: exec_def step_def goto_def system_init_def PetersonLock_init_def lock_writes)
  from a have "in_critical_section ?s 0" by (simp add: in_critical_section_def)
  with mutual_exclusion[of "[(0, 0, Acquire), (0, 0, Acquire), (1, 0, Acquire), (0, 0, Acquire),
            (1, 0, Acquire), (0, 0, Acquire), (1, 0, Acquire), (0, 0, Acquire), (0, 0, Acquire),
            (0, 1, Acquire), (1, 0, Acquire), (1, 0, Acquire)]"] b
  show ?thesis by blast
qed

section \<open>Steps of one thread\<close>





lemma exec_Cons: "exec (ev # evs) s = exec evs (step ev s)"
  by (simp add: exec_def)

lemma exec_Nil: "exec [] s = s"
  by (simp add: exec_def)

lemma exec_append: "exec (xs @ ys) s = exec ys (exec xs s)"
  by (simp add: exec_def)

lemma step_valid:
  "pid = 0 \<or> pid = 1 \<Longrightarrow>
   step (pid, now, req) s =
     (case pc (thr s pid) of
        Idle \<Rightarrow>
          (case req of
             Acquire \<Rightarrow> s\<lparr>thr := (thr s)(pid := \<lparr>pc = L40, start_time_of = now\<rparr>)\<rparr>
           | Release \<Rightarrow> s\<lparr>shared := set_flag pid False (shared s)\<rparr>)
      | L40 \<Rightarrow> goto pid L41 (s\<lparr>shared := set_flag pid True (shared s)\<rparr>)
      | L41 \<Rightarrow> goto pid L44_flag (s\<lparr>shared := (shared s)\<lparr>turn := 1 - pid\<rparr>\<rparr>)
      | L44_flag \<Rightarrow>
          if flag (shared s) ! nat (1 - pid) then goto pid L44_turn s else goto pid L51 s
      | L44_turn \<Rightarrow> if turn (shared s) = 1 - pid then goto pid L45 s else goto pid L51 s
      | L45 \<Rightarrow>
          if now - start_time_of (thr s pid) > lock_timeout (shared s) then goto pid L46 s
          else goto pid L49 s
      | L46 \<Rightarrow> goto pid L47 (s\<lparr>shared := set_flag pid False (shared s)\<rparr>)
      | L47 \<Rightarrow> goto pid L56 (s\<lparr>shared := add_fails pid (shared s)\<rparr>)
      | L49 \<Rightarrow> goto pid L44_flag s
      | L51 \<Rightarrow> goto pid L52 (s\<lparr>shared := add_entries pid (shared s)\<rparr>)
      | L52 \<Rightarrow>
          goto pid Holding
            (s\<lparr>shared := add_wait_time pid (now - start_time_of (thr s pid)) (shared s)\<rparr>)
      | L56 \<Rightarrow> goto pid Idle (s\<lparr>shared := set_flag pid False (shared s)\<rparr>)
      | Holding \<Rightarrow> goto pid Idle (s\<lparr>shared := set_flag pid False (shared s)\<rparr>))"
  by (erule disjE; hypsubst) (simp_all add: step_def Let_def)

lemma goto_simps:
  "shared (goto pid l s) = shared s"
  "pc (thr (goto pid l s) pid) = l"
  "start_time_of (thr (goto pid l s) pid) = start_time_of (thr s pid)"
  by (simp_all add: goto_def)



lemma step_at:
  assumes "pid = 0 \<or> pid = 1"
  shows "pc (thr s pid) = L44_flag \<Longrightarrow> flag (shared s) ! nat (1 - pid) \<Longrightarrow>
           step (pid, now, req) s = goto pid L44_turn s"
    and "pc (thr s pid) = L44_flag \<Longrightarrow> \<not> flag (shared s) ! nat (1 - pid) \<Longrightarrow>
           step (pid, now, req) s = goto pid L51 s"
    and "pc (thr s pid) = L44_turn \<Longrightarrow> turn (shared s) = 1 - pid \<Longrightarrow>
           step (pid, now, req) s = goto pid L45 s"
    and "pc (thr s pid) = L44_turn \<Longrightarrow> turn (shared s) \<noteq> 1 - pid \<Longrightarrow>
           step (pid, now, req) s = goto pid L51 s"
    and "pc (thr s pid) = L45 \<Longrightarrow> now - start_time_of (thr s pid) > lock_timeout (shared s) \<Longrightarrow>
           step (pid, now, req) s = goto pid L46 s"
    and "pc (thr s pid) = L45 \<Longrightarrow> \<not> now - start_time_of (thr s pid) > lock_timeout (shared s) \<Longrightarrow>
           step (pid, now, req) s = goto pid L49 s"
    and "pc (thr s pid) = L46 \<Longrightarrow>
           step (pid, now, req) s = goto pid L47 (s\<lparr>shared := set_flag pid False (shared s)\<rparr>)"
    and "pc (thr s pid) = L47 \<Longrightarrow>
           step (pid, now, req) s = goto pid L56 (s\<lparr>shared := add_fails pid (shared s)\<rparr>)"
    and "pc (thr s pid) = L49 \<Longrightarrow> step (pid, now, req) s = goto pid L44_flag s"
    and "pc (thr s pid) = L51 \<Longrightarrow>
           step (pid, now, req) s = goto pid L52 (s\<lparr>shared := add_entries pid (shared s)\<rparr>)"
    and "pc (thr s pid) = L52 \<Longrightarrow>
           step (pid, now, req) s =
             goto pid Holding
               (s\<lparr>shared := add_wait_time pid (now - start_time_of (thr s pid)) (shared s)\<rparr>)"
    and "pc (thr s pid) = L56 \<Longrightarrow>
           step (pid, now, req) s = goto pid Idle (s\<lparr>shared := set_flag pid False (shared s)\<rparr>)"
  by (simp_all add: step_valid[OF assms])

text \<open>A step of a thread writes neither the flag nor the statistics of the other identity.\<close>

lemma step_frame:
  assumes pid: "pid = 0 \<or> pid = 1" and len: "length (flag (shared s)) = 2"
  shows "flag (shared (step (pid, now, req) s)) ! nat (1 - pid) = flag (shared s) ! nat (1 - pid) \<and>
         stats (shared (step (pid, now, req) s)) (1 - pid) = stats (shared s) (1 - pid)"
proof -
  from pid have ne: "nat pid \<noteq> nat (1 - pid)" "pid \<noteq> 1 - pid" "2 * pid \<noteq> 1" by auto
  show ?thesis
    by (cases "pc (thr s pid)"; cases req)
       (simp_all add: step_valid[OF pid] goto_def lock_writes ne)
qed

section \<open>Agreement of the sequential model and the step semantics\<close>













section \<open>The wait loop under interleaving\<close>

text \<open>
  Steps of the other thread (and events that name no thread) leave the thread's own
  label and start time, its own flag, its own statistics, the timeout and the length of
  the flag list as they are.
\<close>

lemma step_other:
  assumes pid: "pid = 0 \<or> pid = 1" and other: "fst ev \<noteq> pid"
  shows "thr (step ev s) pid = thr s pid \<and>
         flag (shared (step ev s)) ! nat pid = flag (shared s) ! nat pid \<and>
         stats (shared (step ev s)) pid = stats (shared s) pid \<and>
         lock_timeout (shared (step ev s)) = lock_timeout (shared s) \<and>
         length (flag (shared (step ev s))) = length (flag (shared s))"
proof -
  obtain q now req where ev: "ev = (q, now, req)" by (cases ev)
  show ?thesis
  proof (cases "q = 0 \<or> q = 1")
    case False
    then show ?thesis by (simp add: ev step_def)
  next
    case True
    from other ev have qp: "q \<noteq> pid" "pid \<noteq> q" by auto
    with True pid have ne: "nat q \<noteq> nat pid" "nat pid \<noteq> nat q" by auto
    show ?thesis unfolding ev
      by (cases "pc (thr s q)"; cases req)
         (simp_all add: step_valid[OF True] goto_def lock_writes qp ne)
  qed
qed

lemma exec_others:
  assumes pid: "pid = 0 \<or> pid = 1"
  shows "\<forall>ev\<in>set es. fst ev \<noteq> pid \<Longrightarrow>
         thr (exec es s) pid = thr s pid \<and>
         flag (shared (exec es s)) ! nat pid = flag (shared s) ! nat pid \<and>
         stats (shared (exec es s)) pid = stats (shared s) pid \<and>
         lock_timeout (shared (exec es s)) = lock_timeout (shared s) \<and>
         length (flag (shared (exec es s))) = length (flag (shared s))"
proof (induction es arbitrary: s)
  case Nil
  then show ?case by (simp add: exec_Nil)
next
  case (Cons ev es)
  from Cons.prems have one: "fst ev \<noteq> pid" and rest: "\<forall>ev\<in>set es. fst ev \<noteq> pid" by simp_all
  from step_other[OF pid one, of s] Cons.IH[OF rest, of "step ev s"]
  show ?case by (simp add: exec_Cons)
qed



text \<open>
  The two ways out of the loop, one for each half of the condition of line 44, and a pass
  of the loop that finds the condition true and the clock within the timeout.
\<close>

lemma exec_own_others: "exec ((pid, a, ra) # es) s = exec es (step (pid, a, ra) s)"
  by (rule exec_Cons)







text \<open>An own step followed by steps of the other thread, by the thread's own components.\<close>

lemma own_step_then_others:
  assumes pid: "pid = 0 \<or> pid = 1" and others: "\<forall>ev\<in>set es. fst ev \<noteq> pid"
    and own: "step (pid, a, ra) s = goto pid l (s\<lparr>shared := L'\<rparr>)"
  shows "pc (thr (exec es (step (pid, a, ra) s)) pid) = l \<and>
         start_time_of (thr (exec es (step (pid, a, ra) s)) pid) = start_time_of (thr s pid) \<and>
         flag (shared (exec es (step (pid, a, ra) s))) ! nat pid = flag L' ! nat pid \<and>
         stats (shared (exec es (step (pid, a, ra) s))) pid = stats L' pid \<and>
         lock_timeout (shared (exec es (step (pid, a, ra) s))) = lock_timeout L' \<and>
         length (flag (shared (exec es (step (pid, a, ra) s)))) = length (flag L')"
proof -
  have "pc (thr (goto pid l (s\<lparr>shared := L'\<rparr>)) pid) = l"
    "start_time_of (thr (goto pid l (s\<lparr>shared := L'\<rparr>)) pid) = start_time_of (thr s pid)"
    "shared (goto pid l (s\<lparr>shared := L'\<rparr>)) = L'"
    by (simp_all add: goto_def)
  with exec_others[OF pid others, of "step (pid, a, ra) s"] own show ?thesis by simp
qed

text \<open>
  The timeout path from the clock test of line 45 back to idle, with steps of the other
  thread in between.
\<close>

lemma timeout_from_L45:
  assumes pid: "pid = 0 \<or> pid = 1" and at: "pc (thr s pid) = L45"
    and late: "now - start_time_of (thr s pid) > lock_timeout (shared s)"
    and len: "length (flag (shared s)) = 2"
    and others: "\<forall>ev\<in>set (es1 @ es2 @ es3). fst ev \<noteq> pid"
  shows "pc (thr (exec ((pid, now, r0) # es1 @ [(pid, t1, r1)]) s) pid) = L47 \<and>
         \<not> flag (shared (exec ((pid, now, r0) # es1 @ [(pid, t1, r1)]) s)) ! nat pid \<and>
         pc (thr (exec ((pid, now, r0) # es1 @ (pid, t1, r1) # es2 @ (pid, t2, r2) # es3 @
                        [(pid, t3, r3)]) s) pid) = Idle \<and>
         \<not> flag (shared (exec ((pid, now, r0) # es1 @ (pid, t1, r1) # es2 @ (pid, t2, r2) # es3 @
                        [(pid, t3, r3)]) s)) ! nat pid \<and>
         fails (the (stats (shared (exec ((pid, now, r0) # es1 @ (pid, t1, r1) # es2 @
                        (pid, t2, r2) # es3 @ [(pid, t3, r3)]) s)) pid)) =
           fails (the (stats (shared s) pid)) + 1 \<and>
         entries (the (stats (shared (exec ((pid, now, r0) # es1 @ (pid, t1, r1) # es2 @
                        (pid, t2, r2) # es3 @ [(pid, t3, r3)]) s)) pid)) =
           entries (the (stats (shared s) pid)) \<and>
         wait_time (the (stats (shared (exec ((pid, now, r0) # es1 @ (pid, t1, r1) # es2 @
                        (pid, t2, r2) # es3 @ [(pid, t3, r3)]) s)) pid)) =
           wait_time (the (stats (shared s) pid))"
proof -
  from others have o1: "\<forall>ev\<in>set es1. fst ev \<noteq> pid" and o2: "\<forall>ev\<in>set es2. fst ev \<noteq> pid"
    and o3: "\<forall>ev\<in>set es3. fst ev \<noteq> pid" by simp_all
  from pid len have idx: "nat pid < length (flag (shared s))" by auto
  define s1 where "s1 = exec es1 (step (pid, now, r0) s)"
  define s2 where "s2 = exec es2 (step (pid, t1, r1) s1)"
  define s3 where "s3 = exec es3 (step (pid, t2, r2) s2)"
  define s4 where "s4 = step (pid, t3, r3) s3"
  have mid: "exec ((pid, now, r0) # es1 @ [(pid, t1, r1)]) s = step (pid, t1, r1) s1"
    unfolding s1_def by (simp add: exec_Cons exec_append exec_Nil)
  have run: "exec ((pid, now, r0) # es1 @ (pid, t1, r1) # es2 @ (pid, t2, r2) # es3 @
               [(pid, t3, r3)]) s = s4"
    unfolding s4_def s3_def s2_def s1_def by (simp add: exec_Cons exec_append exec_Nil)
  have "step (pid, now, r0) s = goto pid L46 s" using step_at(5)[OF pid at late] .
  then have "step (pid, now, r0) s = goto pid L46 (s\<lparr>shared := shared s\<rparr>)" by simp
  from own_step_then_others[OF pid o1 this]
  have c1: "pc (thr s1 pid) = L46" "stats (shared s1) pid = stats (shared s) pid"
    "length (flag (shared s1)) = length (flag (shared s))"
    unfolding s1_def by simp_all
  have e2: "step (pid, t1, r1) s1 = goto pid L47 (s1\<lparr>shared := set_flag pid False (shared s1)\<rparr>)"
    using step_at(7)[OF pid c1(1)] .
  have down: "\<not> flag (set_flag pid False (shared s1)) ! nat pid"
    using idx c1(3) by (simp add: set_flag_def)
  from e2 down have m: "pc (thr (step (pid, t1, r1) s1) pid) = L47"
    "\<not> flag (shared (step (pid, t1, r1) s1)) ! nat pid"
    by (simp_all add: goto_def)
  from own_step_then_others[OF pid o2 e2] down c1
  have c2: "pc (thr s2 pid) = L47" "\<not> flag (shared s2) ! nat pid"
    "stats (shared s2) pid = stats (shared s) pid"
    "length (flag (shared s2)) = length (flag (shared s))"
    unfolding s2_def by (simp_all add: set_flag_def)
  have e3: "step (pid, t2, r2) s2 = goto pid L56 (s2\<lparr>shared := add_fails pid (shared s2)\<rparr>)"
    using step_at(8)[OF pid c2(1)] .
  from own_step_then_others[OF pid o3 e3] c2
  have c3: "pc (thr s3 pid) = L56"
    "stats (shared s3) pid = Some ((the (stats (shared s) pid))
        \<lparr>fails := fails (the (stats (shared s) pid)) + 1\<rparr>)"
    "length (flag (shared s3)) = length (flag (shared s))"
    unfolding s3_def by (simp_all add: add_fails_def)
  have e4: "s4 = goto pid Idle (s3\<lparr>shared := set_flag pid False (shared s3)\<rparr>)"
    unfolding s4_def using step_at(12)[OF pid c3(1)] .
  have "pc (thr s4 pid) = Idle" "\<not> flag (shared s4) ! nat pid"
    "fails (the (stats (shared s4) pid)) = fails (the (stats (shared s) pid)) + 1"
    "entries (the (stats (shared s4) pid)) = entries (the (stats (shared s) pid))"
    "wait_time (the (stats (shared s4) pid)) = wait_time (the (stats (shared s) pid))"
    using idx c3 by (simp_all add: e4 goto_def set_flag_def)
  with m show ?thesis unfolding run mid by simp
qed


lemma recheck_reached_by_test:
  assumes pid: "pid = 0 \<or> pid = 1"
  shows "pc (thr (step ev s) pid) = L44_turn \<Longrightarrow>
           pc (thr s pid) = L44_turn \<or>
           fst ev = pid \<and> pc (thr s pid) = L44_flag \<and> flag (shared s) ! nat (1 - pid)"
    and "pc (thr (step ev s) pid) = L45 \<Longrightarrow>
           pc (thr s pid) = L45 \<or>
           fst ev = pid \<and> pc (thr s pid) = L44_turn \<and> turn (shared s) = 1 - pid"
    and "pc (thr (step ev s) pid) = L46 \<Longrightarrow>
           pc (thr s pid) = L46 \<or>
           fst ev = pid \<and> pc (thr s pid) = L45 \<and>
             fst (snd ev) - start_time_of (thr s pid) > lock_timeout (shared s)"
proof -
  have other: "thr (step ev s) pid = thr s pid" if "fst ev \<noteq> pid"
    using step_other[OF pid that, of s] by simp
  show "pc (thr (step ev s) pid) = L44_turn \<Longrightarrow>
           pc (thr s pid) = L44_turn \<or>
           fst ev = pid \<and> pc (thr s pid) = L44_flag \<and> flag (shared s) ! nat (1 - pid)"
  proof (cases "fst ev = pid")
    case False
    assume "pc (thr (step ev s) pid) = L44_turn"
    with other[OF False] show ?thesis by simp
  next
    case True
    assume a: "pc (thr (step ev s) pid) = L44_turn"
    from True obtain now req where ev: "ev = (pid, now, req)" by (cases ev) auto
    from a show ?thesis unfolding ev
      by (cases "pc (thr s pid)"; cases req)
         (simp_all add: step_valid[OF pid] goto_def split: if_splits)
  qed
  show "pc (thr (step ev s) pid) = L45 \<Longrightarrow>
           pc (thr s pid) = L45 \<or>
           fst ev = pid \<and> pc (thr s pid) = L44_turn \<and> turn (shared s) = 1 - pid"
  proof (cases "fst ev = pid")
    case False
    assume "pc (thr (step ev s) pid) = L45"
    with other[OF False] show ?thesis by simp
  next
    case True
    assume a: "pc (thr (step ev s) pid) = L45"
    from True obtain now req where ev: "ev = (pid, now, req)" by (cases ev) auto
    from a show ?thesis unfolding ev
      by (cases "pc (thr s pid)"; cases req)
         (simp_all add: step_valid[OF pid] goto_def split: if_splits)
  qed
  show "pc (thr (step ev s) pid) = L46 \<Longrightarrow>
           pc (thr s pid) = L46 \<or>
           fst ev = pid \<and> pc (thr s pid) = L45 \<and>
             fst (snd ev) - start_time_of (thr s pid) > lock_timeout (shared s)"
  proof (cases "fst ev = pid")
    case False
    assume "pc (thr (step ev s) pid) = L46"
    with other[OF False] show ?thesis by simp
  next
    case True
    assume a: "pc (thr (step ev s) pid) = L46"
    from True obtain now req where ev: "ev = (pid, now, req)" by (cases ev) auto
    from a show ?thesis unfolding ev
      by (cases "pc (thr s pid)"; cases req)
         (simp_all add: step_valid[OF pid] goto_def split: if_splits)
  qed
qed

text \<open>Unfolding a schedule on the initial state.\<close>

lemmas run_simps = exec_def step_def goto_def system_init_def PetersonLock_init_def
  ProcessStats_init_def lock_writes

text \<open>
  The timeout in the sequential model: the flag of the other identity is raised at the
  call and nothing else writes during it.
\<close>

lemma lock_timeout_sequential:
  assumes "wf_lock L" "pid = 0 \<or> pid = 1"
    and "flag L ! nat (1 - pid)"
    and "t \<in> set ticks" "t - start > lock_timeout L"
  shows "\<exists>L1 L' rest.
           wait_loop pid start ((set_flag pid True L)\<lparr>turn := 1 - pid\<rparr>) ticks =
             Some (Inl (LockTimeout pid), L1, rest) \<and>
           \<not> flag L1 ! nat pid \<and>
           lock L pid (start # ticks) =
             Some (Inl (LockAcquisitionFailure (LockTimeout pid)), L', rest) \<and>
           \<not> flag L' ! nat pid \<and>
           fails (the (stats L' pid)) = fails (the (stats L pid)) + 1 \<and>
           entries (the (stats L' pid)) = entries (the (stats L pid)) \<and>
           wait_time (the (stats L' pid)) = wait_time (the (stats L pid))"
proof -
  let ?L0 = "(set_flag pid True L)\<lparr>turn := 1 - pid\<rparr>"
  let ?L1 = "add_fails pid (set_flag pid False ?L0)"
  let ?rest = "tl (dropWhile (\<lambda>t. \<not> t - start > lock_timeout L) ticks)"
  from assms(1) have len: "length (flag L) = 2" by (simp add: wf_lock_def)
  from assms(4,5) have ex: "\<exists>t\<in>set ticks. t - start > lock_timeout L" by auto
  from assms(2,3) len have c: "flag ?L0 ! nat (1 - pid) \<and> turn ?L0 = 1 - pid"
    by (auto simp: set_flag_def)
  from ex have ex0: "\<exists>t\<in>set ticks. t - start > lock_timeout ?L0" by (simp add: set_flag_def)
  have "wait_loop pid start ?L0 ticks = Some (Inl (LockTimeout pid), ?L1, ?rest)"
    using wait_loop_timeout[OF c ex0] by (simp add: set_flag_def)
  moreover have "\<not> flag ?L1 ! nat pid"
    using assms(2) len by (auto simp: lock_writes)
  moreover have "lock L pid (start # ticks) =
      Some (Inl (LockAcquisitionFailure (LockTimeout pid)), set_flag pid False ?L1, ?rest)"
    using lock_busy_timeout[OF assms(2) len assms(3) ex] .
  moreover have "\<not> flag (set_flag pid False ?L1) ! nat pid"
    using assms(2) len by (auto simp: lock_writes)
  moreover have "fails (the (stats (set_flag pid False ?L1) pid)) = fails (the (stats L pid)) + 1"
    "entries (the (stats (set_flag pid False ?L1) pid)) = entries (the (stats L pid))"
    "wait_time (the (stats (set_flag pid False ?L1) pid)) = wait_time (the (stats L pid))"
    by (simp_all add: lock_writes)
  ultimately show ?thesis by blast
qed

section \<open>Errors of \<open>lock\<close> and \<open>unlock\<close>\<close>

text \<open>
  C3 (invalid identity). For an identity other than 0 and 1, \<open>lock\<close> and \<open>unlock\<close>
  raise the invalid-identity error and leave the whole lock object (flags, turn and all
  statistics) as it was; \<open>lock\<close> has not read the clock either.
\<close>

theorem invalid_identity_rejected:
  assumes "pid \<noteq> 0" "pid \<noteq> 1"
  shows "lock L pid clk = Some (Inl (InvalidProcessId pid), L, clk) \<and>
         unlock L pid = (Inl (InvalidProcessId pid), L)"
  using assms by (simp add: lock_def unlock_def)

theorem invalid_identity_rejected_witness:
  "lock PetersonLock_init 2 [] = Some (Inl (InvalidProcessId 2), PetersonLock_init, []) \<and>
   unlock PetersonLock_init (- 1) = (Inl (InvalidProcessId (- 1)), PetersonLock_init)"
  using invalid_identity_rejected[of 2 PetersonLock_init "[]"]
        invalid_identity_rejected[of "- 1" PetersonLock_init "[]"]
  by simp

text \<open>
  C2 (timeout), amended. The timeout is tested only at a pass of the wait loop that has
  found the flag of the other identity raised and the turn given away (line 45 is reached
  through both reads of line 44 only). If at that test the time since the start of the
  call exceeds the timeout, the call aborts, whatever the other thread does meanwhile: the
  flag of the caller is put down before the error leaves the loop and is down when the
  call ends, \<open>fails\<close> of the caller has grown by exactly one, its \<open>entries\<close> and
  \<open>wait_time\<close> are unchanged; and the abort happens in no other way. In the sequential
  model the error that reaches the caller is the timeout error wrapped as an acquisition
  failure.
\<close>

theorem lock_timeout_aborts:
  assumes pid: "pid = 0 \<or> pid = 1"
  shows
    "(\<forall>s ev. pc (thr (step ev s) pid) = L45 \<longrightarrow>
        pc (thr s pid) = L45 \<or>
        fst ev = pid \<and> pc (thr s pid) = L44_turn \<and> turn (shared s) = 1 - pid) \<and>
     (\<forall>s ev. pc (thr (step ev s) pid) = L44_turn \<longrightarrow>
        pc (thr s pid) = L44_turn \<or>
        fst ev = pid \<and> pc (thr s pid) = L44_flag \<and> flag (shared s) ! nat (1 - pid)) \<and>
     (\<forall>s ev. pc (thr (step ev s) pid) = L46 \<longrightarrow>
        pc (thr s pid) = L46 \<or>
        fst ev = pid \<and> pc (thr s pid) = L45 \<and>
          fst (snd ev) - start_time_of (thr s pid) > lock_timeout (shared s)) \<and>
     (\<forall>s now r0 t1 r1 t2 r2 t3 r3 es1 es2 es3.
        pc (thr s pid) = L45 \<and> now - start_time_of (thr s pid) > lock_timeout (shared s) \<and>
        length (flag (shared s)) = 2 \<and> (\<forall>ev\<in>set (es1 @ es2 @ es3). fst ev \<noteq> pid) \<longrightarrow>
        pc (thr (exec ((pid, now, r0) # es1 @ [(pid, t1, r1)]) s) pid) = L47 \<and>
        \<not> flag (shared (exec ((pid, now, r0) # es1 @ [(pid, t1, r1)]) s)) ! nat pid \<and>
        pc (thr (exec ((pid, now, r0) # es1 @ (pid, t1, r1) # es2 @ (pid, t2, r2) # es3 @
                       [(pid, t3, r3)]) s) pid) = Idle \<and>
        \<not> flag (shared (exec ((pid, now, r0) # es1 @ (pid, t1, r1) # es2 @ (pid, t2, r2) # es3 @
                       [(pid, t3, r3)]) s)) ! nat pid \<and>
        fails (the (stats (shared (exec ((pid, now, r0) # es1 @ (pid, t1, r1) # es2 @
                       (pid, t2, r2) # es3 @ [(pid, t3, r3)]) s)) pid)) =
          fails (the (stats (shared s) pid)) + 1 \<and>
        entries (the (stats (shared (exec ((pid, now, r0) # es1 @ (pid, t1, r1) # es2 @
                       (pid, t2, r2) # es3 @ [(pid, t3, r3)]) s)) pid)) =
          entries (the (stats (shared s) pid)) \<and>
        wait_time (the (stats (shared (exec ((pid, now, r0) # es1 @ (pid, t1, r1) # es2 @
                       (pid, t2, r2) # es3 @ [(pid, t3, r3)]) s)) pid)) =
          wait_time (the (stats (shared s) pid))) \<and>
     (\<forall>L start ticks t.
        wf_lock L \<and> flag L ! nat (1 - pid) \<and> t \<in> set ticks \<and> t - start > lock_timeout L \<longrightarrow>
        (\<exists>L1 L' rest.
           wait_loop pid start ((set_flag pid True L)\<lparr>turn := 1 - pid\<rparr>) ticks =
             Some (Inl (LockTimeout pid), L1, rest) \<and>
           \<not> flag L1 ! nat pid \<and>
           lock L pid (start # ticks) =
             Some (Inl (LockAcquisitionFailure (LockTimeout pid)), L', rest) \<and>
           \<not> flag L' ! nat pid \<and>
           fails (the (stats L' pid)) = fails (the (stats L pid)) + 1 \<and>
           entries (the (stats L' pid)) = entries (the (stats L pid)) \<and>
           wait_time (the (stats L' pid)) = wait_time (the (stats L pid))))"
proof (intro conjI allI impI)
  fix s ev
  assume "pc (thr (step ev s) pid) = L45"
  from recheck_reached_by_test(2)[OF pid this]
  show "pc (thr s pid) = L45 \<or>
        fst ev = pid \<and> pc (thr s pid) = L44_turn \<and> turn (shared s) = 1 - pid" .
next
  fix s ev
  assume "pc (thr (step ev s) pid) = L44_turn"
  from recheck_reached_by_test(1)[OF pid this]
  show "pc (thr s pid) = L44_turn \<or>
        fst ev = pid \<and> pc (thr s pid) = L44_flag \<and> flag (shared s) ! nat (1 - pid)" .
next
  fix s ev
  assume "pc (thr (step ev s) pid) = L46"
  from recheck_reached_by_test(3)[OF pid this]
  show "pc (thr s pid) = L46 \<or>
        fst ev = pid \<and> pc (thr s pid) = L45 \<and>
          fst (snd ev) - start_time_of (thr s pid) > lock_timeout (shared s)" .
next
  fix L start ticks t
  assume a: "wf_lock L \<and> flag L ! nat (1 - pid) \<and> t \<in> set ticks \<and> t - start > lock_timeout L"
  then have "wf_lock L" "flag L ! nat (1 - pid)" "t \<in> set ticks" "t - start > lock_timeout L"
    by simp_all
  from lock_timeout_sequential[OF this(1) pid this(2,3,4)]
  show "\<exists>L1 L' rest.
           wait_loop pid start ((set_flag pid True L)\<lparr>turn := 1 - pid\<rparr>) ticks =
             Some (Inl (LockTimeout pid), L1, rest) \<and>
           \<not> flag L1 ! nat pid \<and>
           lock L pid (start # ticks) =
             Some (Inl (LockAcquisitionFailure (LockTimeout pid)), L', rest) \<and>
           \<not> flag L' ! nat pid \<and>
           fails (the (stats L' pid)) = fails (the (stats L pid)) + 1 \<and>
           entries (the (stats L' pid)) = entries (the (stats L pid)) \<and>
           wait_time (the (stats L' pid)) = wait_time (the (stats L pid))" .
next
  fix s :: system and now r0 t1 r1 t2 r2 t3 r3
    and es1 es2 es3 :: "(int \<times> real \<times> request) list"
  assume a: "pc (thr s pid) = L45 \<and> now - start_time_of (thr s pid) > lock_timeout (shared s) \<and>
        length (flag (shared s)) = 2 \<and> (\<forall>ev\<in>set (es1 @ es2 @ es3). fst ev \<noteq> pid)"
  then have h: "pc (thr s pid) = L45" "now - start_time_of (thr s pid) > lock_timeout (shared s)"
    "length (flag (shared s)) = 2" "\<forall>ev\<in>set (es1 @ es2 @ es3). fst ev \<noteq> pid"
    by simp_all
  note t = timeout_from_L45[OF pid h, where ?r0.0 = r0 and ?t1.0 = t1 and ?r1.0 = r1 and ?t2.0 = t2
      and ?r2.0 = r2 and ?t3.0 = t3 and ?r3.0 = r3]
  from t show "pc (thr (exec ((pid, now, r0) # es1 @ [(pid, t1, r1)]) s) pid) = L47" by blast
  from t show "\<not> flag (shared (exec ((pid, now, r0) # es1 @ [(pid, t1, r1)]) s)) ! nat pid"
    by blast
  from t show "pc (thr (exec ((pid, now, r0) # es1 @ (pid, t1, r1) # es2 @ (pid, t2, r2) # es3 @
                       [(pid, t3, r3)]) s) pid) = Idle" by blast
  from t show "\<not> flag (shared (exec ((pid, now, r0) # es1 @ (pid, t1, r1) # es2 @ (pid, t2, r2) # es3 @
                       [(pid, t3, r3)]) s)) ! nat pid" by blast
  from t show "fails (the (stats (shared (exec ((pid, now, r0) # es1 @ (pid, t1, r1) # es2 @
                       (pid, t2, r2) # es3 @ [(pid, t3, r3)]) s)) pid)) =
          fails (the (stats (shared s) pid)) + 1" by blast
  from t show "entries (the (stats (shared (exec ((pid, now, r0) # es1 @ (pid, t1, r1) # es2 @
                       (pid, t2, r2) # es3 @ [(pid, t3, r3)]) s)) pid)) =
          entries (the (stats (shared s) pid))" by blast
  from t show "wait_time (the (stats (shared (exec ((pid, now, r0) # es1 @ (pid, t1, r1) # es2 @
                       (pid, t2, r2) # es3 @ [(pid, t3, r3)]) s)) pid)) =
          wait_time (the (stats (shared s) pid))" by blast
qed

text \<open>
  The elapsed time alone does not abort the call. Below, identity 0 waits behind identity
  1, which releases the lock between two tests of the loop of identity 0: identity 0
  enters with a recorded wait of 5.005 seconds, above the timeout of 5, and no failure is
  counted. On a free lock a call whose two clock readings are 10 seconds apart succeeds
  as well.
\<close>

theorem lock_timeout_counterexample:
  "pc (thr (exec [(1, 0, Acquire), (1, 0, Acquire), (1, 0, Acquire), (1, 0, Acquire),
                  (1, 0, Acquire), (1, 0, Acquire),
                  (0, 0, Acquire), (0, 0, Acquire), (0, 0, Acquire), (0, 0, Acquire),
                  (0, 0, Acquire), (0, 999 / 200, Acquire), (0, 0, Acquire),
                  (1, 0, Acquire),
                  (0, 0, Acquire), (0, 0, Acquire), (0, 1001 / 200, Acquire)] system_init) 0) = Holding \<and>
   stats (shared (exec [(1, 0, Acquire), (1, 0, Acquire), (1, 0, Acquire), (1, 0, Acquire),
                  (1, 0, Acquire), (1, 0, Acquire),
                  (0, 0, Acquire), (0, 0, Acquire), (0, 0, Acquire), (0, 0, Acquire),
                  (0, 0, Acquire), (0, 999 / 200, Acquire), (0, 0, Acquire),
                  (1, 0, Acquire),
                  (0, 0, Acquire), (0, 0, Acquire), (0, 1001 / 200, Acquire)] system_init)) 0 =
     Some \<lparr>entries = 1, wait_time = 1001 / 200, fails = 0\<rparr> \<and>
   lock_timeout (shared (exec [(1, 0, Acquire), (1, 0, Acquire), (1, 0, Acquire), (1, 0, Acquire),
                  (1, 0, Acquire), (1, 0, Acquire),
                  (0, 0, Acquire), (0, 0, Acquire), (0, 0, Acquire), (0, 0, Acquire),
                  (0, 0, Acquire), (0, 999 / 200, Acquire), (0, 0, Acquire),
                  (1, 0, Acquire),
                  (0, 0, Acquire), (0, 0, Acquire), (0, 1001 / 200, Acquire)] system_init)) = 5 \<and>
   lock PetersonLock_init 0 [0, 10] =
     Some (Inr True,
           \<lparr>flag = [True, False], turn = 1,
            stats = [0 \<mapsto> \<lparr>entries = 1, wait_time = 10, fails = 0\<rparr>, 1 \<mapsto> ProcessStats_init],
            lock_timeout = 5\<rparr>, [])"
proof (intro conjI)
  show "lock PetersonLock_init 0 [0, 10] =
     Some (Inr True,
           \<lparr>flag = [True, False], turn = 1,
            stats = [0 \<mapsto> \<lparr>entries = 1, wait_time = 10, fails = 0\<rparr>, 1 \<mapsto> ProcessStats_init],
            lock_timeout = 5\<rparr>, [])"
    by (simp add: lock_def wait_loop.simps lock_writes PetersonLock_init_def
        ProcessStats_init_def fun_upd_twist)
qed (simp_all add: run_simps)

theorem lock_timeout_aborts_witness:
  "pc (thr (exec [(1, 0, Acquire), (1, 0, Acquire), (1, 0, Acquire), (1, 0, Acquire),
                  (1, 0, Acquire), (1, 0, Acquire),
                  (0, 0, Acquire), (0, 0, Acquire), (0, 0, Acquire), (0, 0, Acquire),
                  (0, 0, Acquire)] system_init) 0) = L45 \<and>
   pc (thr (exec ((0, 6, Acquire) # [] @ (0, 6, Acquire) # [(1, 7, Release)] @ (0, 7, Acquire) # [] @
                  [(0, 7, Acquire)])
             (exec [(1, 0, Acquire), (1, 0, Acquire), (1, 0, Acquire), (1, 0, Acquire),
                    (1, 0, Acquire), (1, 0, Acquire),
                    (0, 0, Acquire), (0, 0, Acquire), (0, 0, Acquire), (0, 0, Acquire),
                    (0, 0, Acquire)] system_init)) 0) = Idle \<and>
   \<not> flag (shared (exec ((0, 6, Acquire) # [] @ (0, 6, Acquire) # [(1, 7, Release)] @
                          (0, 7, Acquire) # [] @ [(0, 7, Acquire)])
             (exec [(1, 0, Acquire), (1, 0, Acquire), (1, 0, Acquire), (1, 0, Acquire),
                    (1, 0, Acquire), (1, 0, Acquire),
                    (0, 0, Acquire), (0, 0, Acquire), (0, 0, Acquire), (0, 0, Acquire),
                    (0, 0, Acquire)] system_init))) ! nat 0 \<and>
   fails (the (stats (shared (exec ((0, 6, Acquire) # [] @ (0, 6, Acquire) # [(1, 7, Release)] @
                          (0, 7, Acquire) # [] @ [(0, 7, Acquire)])
             (exec [(1, 0, Acquire), (1, 0, Acquire), (1, 0, Acquire), (1, 0, Acquire),
                    (1, 0, Acquire), (1, 0, Acquire),
                    (0, 0, Acquire), (0, 0, Acquire), (0, 0, Acquire), (0, 0, Acquire),
                    (0, 0, Acquire)] system_init))) 0)) = 0 + 1 \<and>
   (\<exists>L' rest. lock (set_flag 1 True PetersonLock_init) 0 [0, 1, 6, 7] =
       Some (Inl (LockAcquisitionFailure (LockTimeout 0)), L', rest) \<and> \<not> flag L' ! nat 0 \<and>
       fails (the (stats L' 0)) = fails (the (stats (set_flag 1 True PetersonLock_init) 0)) + 1)"
proof -
  let ?s = "exec [(1, 0, Acquire), (1, 0, Acquire), (1, 0, Acquire), (1, 0, Acquire),
                    (1, 0, Acquire), (1, 0, Acquire),
                    (0, 0, Acquire), (0, 0, Acquire), (0, 0, Acquire), (0, 0, Acquire),
                    (0, 0, Acquire)] system_init"
  have zero: "(0::int) = 0 \<or> (0::int) = 1" by simp
  have at: "pc (thr ?s 0) = L45" by (simp add: run_simps)
  have st: "start_time_of (thr ?s 0) = 0" "lock_timeout (shared ?s) = 5"
    "length (flag (shared ?s)) = 2" "fails (the (stats (shared ?s) 0)) = 0"
    by (simp_all add: run_simps)
  have hyp: "pc (thr ?s 0) = L45 \<and> 6 - start_time_of (thr ?s 0) > lock_timeout (shared ?s) \<and>
        length (flag (shared ?s)) = 2 \<and>
        (\<forall>ev\<in>set ([] @ [(1::int, 7::real, Release)] @ []). fst ev \<noteq> 0)"
    using at st by simp
  note main = lock_timeout_aborts[OF zero]
  from main hyp
  have step_part:
    "pc (thr (exec ((0, 6, Acquire) # [] @ (0, 6, Acquire) # [(1, 7, Release)] @ (0, 7, Acquire) # [] @
                  [(0, 7, Acquire)]) ?s) 0) = Idle \<and>
     \<not> flag (shared (exec ((0, 6, Acquire) # [] @ (0, 6, Acquire) # [(1, 7, Release)] @
                          (0, 7, Acquire) # [] @ [(0, 7, Acquire)]) ?s)) ! nat 0 \<and>
     fails (the (stats (shared (exec ((0, 6, Acquire) # [] @ (0, 6, Acquire) # [(1, 7, Release)] @
                          (0, 7, Acquire) # [] @ [(0, 7, Acquire)]) ?s)) 0)) =
       fails (the (stats (shared ?s) 0)) + 1"
    by blast
  have wf: "wf_lock (set_flag 1 True PetersonLock_init)"
    by (simp add: wf_lock_set_flag wf_lock_init)
  have seq_hyp: "wf_lock (set_flag 1 True PetersonLock_init) \<and>
      flag (set_flag 1 True PetersonLock_init) ! nat (1 - 0) \<and> (6::real) \<in> set [1, 6, 7] \<and>
      (6::real) - 0 > lock_timeout (set_flag 1 True PetersonLock_init)"
    using wf by (simp add: set_flag_def PetersonLock_init_def)
  from main seq_hyp
  have "\<exists>L1 L' rest.
           wait_loop 0 0 ((set_flag 0 True (set_flag 1 True PetersonLock_init))\<lparr>turn := 1 - 0\<rparr>)
               [1, 6, 7] = Some (Inl (LockTimeout 0), L1, rest) \<and>
           \<not> flag L1 ! nat 0 \<and>
           lock (set_flag 1 True PetersonLock_init) 0 (0 # [1, 6, 7]) =
             Some (Inl (LockAcquisitionFailure (LockTimeout 0)), L', rest) \<and>
           \<not> flag L' ! nat 0 \<and>
           fails (the (stats L' 0)) = fails (the (stats (set_flag 1 True PetersonLock_init) 0)) + 1 \<and>
           entries (the (stats L' 0)) = entries (the (stats (set_flag 1 True PetersonLock_init) 0)) \<and>
           wait_time (the (stats L' 0)) = wait_time (the (stats (set_flag 1 True PetersonLock_init) 0))"
    by blast
  then have seq_part: "\<exists>L' rest. lock (set_flag 1 True PetersonLock_init) 0 [0, 1, 6, 7] =
       Some (Inl (LockAcquisitionFailure (LockTimeout 0)), L', rest) \<and> \<not> flag L' ! nat 0 \<and>
       fails (the (stats L' 0)) = fails (the (stats (set_flag 1 True PetersonLock_init) 0)) + 1"
    by blast
  from at step_part st(4) seq_part show ?thesis by simp
qed

text \<open>
  C8 (release). For a valid identity \<open>unlock\<close> always returns normally, whatever the state
  of the lock and whether or not the identity holds it, and its only effect is to put the
  flag of the identity down. A second \<open>unlock\<close> gives the state of the first, and on a
  flag that is already down \<open>unlock\<close> changes nothing.
\<close>

theorem unlock_idempotent:
  assumes "wf_lock L" "pid = 0 \<or> pid = 1"
  shows "fst (unlock L pid) = Inr () \<and>
         snd (unlock L pid) = L\<lparr>flag := (flag L)[nat pid := False]\<rparr> \<and>
         \<not> flag (snd (unlock L pid)) ! nat pid \<and>
         unlock (snd (unlock L pid)) pid = unlock L pid \<and>
         (flag L ! nat pid \<or> snd (unlock L pid) = L)"
proof -
  from assms(1) have len: "length (flag L) = 2" by (simp add: wf_lock_def)
  with assms(2) have "nat pid < length (flag L)" by auto
  then have down: "\<not> (flag L)[nat pid := False] ! nat pid" by simp
  have noop: "flag L ! nat pid \<or> set_flag pid False L = L"
  proof (cases "flag L ! nat pid")
    case True
    then show ?thesis by simp
  next
    case False
    then have "(flag L)[nat pid := False] = flag L"
      using list_update_id[of "flag L" "nat pid"] by simp
    then show ?thesis by (simp add: set_flag_def)
  qed
  have un: "unlock L pid = (Inr (), set_flag pid False L)"
    using assms(2) by (auto simp: unlock_def)
  have again: "unlock (set_flag pid False L) pid = (Inr (), set_flag pid False L)"
    using assms(2) by (auto simp: unlock_def set_flag_def)
  from un again down noop show ?thesis by (simp add: set_flag_def)
qed

theorem unlock_idempotent_witness:
  "fst (unlock PetersonLock_init 1) = Inr () \<and>
   snd (unlock PetersonLock_init 1) = PetersonLock_init \<and>
   unlock (snd (unlock PetersonLock_init 1)) 1 = unlock PetersonLock_init 1 \<and>
   \<not> flag (snd (unlock (set_flag 1 True PetersonLock_init) 1)) ! nat 1"
proof -
  have free: "\<not> flag PetersonLock_init ! nat 1" by (simp add: PetersonLock_init_def)
  have wf: "wf_lock (set_flag 1 True PetersonLock_init)"
    by (simp add: wf_lock_set_flag wf_lock_init)
  have one: "(1::int) = 0 \<or> (1::int) = 1" by simp
  from unlock_idempotent[OF wf_lock_init one] free
  have "fst (unlock PetersonLock_init 1) = Inr ()"
    "snd (unlock PetersonLock_init 1) = PetersonLock_init"
    "unlock (snd (unlock PetersonLock_init 1)) 1 = unlock PetersonLock_init 1"
    by blast+
  moreover from unlock_idempotent[OF wf one]
  have "\<not> flag (snd (unlock (set_flag 1 True PetersonLock_init) 1)) ! nat 1" by blast
  ultimately show ?thesis by blast
qed

section \<open>What \<open>lock\<close> and \<open>unlock\<close> write\<close>

text \<open>
  C10 (frame). For a valid identity, however \<open>lock\<close> ends (entered or timed out), the
  flag and the statistics of the other identity are as before; the same holds after each
  single step of the thread in the interleaved execution. \<open>unlock\<close> changes the flag of
  its own identity only: \<open>turn\<close>, the other flag and all statistics are as before.
\<close>

theorem lock_unlock_frame:
  assumes "wf_lock L" "pid = 0 \<or> pid = 1"
  shows "(\<forall>clk r L' clk'. lock L pid clk = Some (r, L', clk') \<longrightarrow>
            flag L' ! nat (1 - pid) = flag L ! nat (1 - pid) \<and>
            stats L' (1 - pid) = stats L (1 - pid) \<and>
            length (flag L') = length (flag L) \<and> lock_timeout L' = lock_timeout L) \<and>
         (\<forall>s now req. shared s = L \<longrightarrow>
            flag (shared (step (pid, now, req) s)) ! nat (1 - pid) = flag L ! nat (1 - pid) \<and>
            stats (shared (step (pid, now, req) s)) (1 - pid) = stats L (1 - pid)) \<and>
         snd (unlock L pid) = L\<lparr>flag := (flag L)[nat pid := False]\<rparr> \<and>
         flag (snd (unlock L pid)) ! nat (1 - pid) = flag L ! nat (1 - pid) \<and>
         turn (snd (unlock L pid)) = turn L \<and>
         stats (snd (unlock L pid)) = stats L"
proof (intro conjI allI impI)
  from assms(1) have len: "length (flag L) = 2" by (simp add: wf_lock_def)
  fix clk r L' clk'
  assume run: "lock L pid clk = Some (r, L', clk')"
  from lock_result[OF assms(2) len run] assms(2)
  show "flag L' ! nat (1 - pid) = flag L ! nat (1 - pid)"
    "stats L' (1 - pid) = stats L (1 - pid)"
    "length (flag L') = length (flag L)" "lock_timeout L' = lock_timeout L"
    by (auto simp: lock_writes)
next
  from assms(1) have len: "length (flag L) = 2" by (simp add: wf_lock_def)
  fix s :: system and now req
  assume "shared s = L"
  with step_frame[OF assms(2), of s now req] len
  show "flag (shared (step (pid, now, req) s)) ! nat (1 - pid) = flag L ! nat (1 - pid)"
    "stats (shared (step (pid, now, req) s)) (1 - pid) = stats L (1 - pid)"
    by simp_all
next
  show "snd (unlock L pid) = L\<lparr>flag := (flag L)[nat pid := False]\<rparr>"
    "turn (snd (unlock L pid)) = turn L" "stats (snd (unlock L pid)) = stats L"
    using assms(2) by (auto simp: unlock_def set_flag_def)
  show "flag (snd (unlock L pid)) ! nat (1 - pid) = flag L ! nat (1 - pid)"
    using assms(2) by (auto simp: unlock_def set_flag_def)
qed

theorem lock_unlock_frame_witness:
  "lock (set_flag 1 True PetersonLock_init) 0 [0, 6] =
     Some (Inl (LockAcquisitionFailure (LockTimeout 0)),
           \<lparr>flag = [False, True], turn = 1,
            stats = [0 \<mapsto> \<lparr>entries = 0, wait_time = 0, fails = 1\<rparr>, 1 \<mapsto> ProcessStats_init],
            lock_timeout = 5\<rparr>, []) \<and>
   flag (set_flag 1 True PetersonLock_init) ! nat (1 - 0) \<and>
   stats (set_flag 1 True PetersonLock_init) (1 - 0) = Some ProcessStats_init \<and>
   turn (snd (unlock (set_flag 1 True PetersonLock_init) 0)) = 0 \<and>
   stats (snd (unlock (set_flag 1 True PetersonLock_init) 0)) = stats PetersonLock_init"
proof -
  have wf: "wf_lock (set_flag 1 True PetersonLock_init)"
    by (simp add: wf_lock_set_flag wf_lock_init)
  have run: "lock (set_flag 1 True PetersonLock_init) 0 [0, 6] =
     Some (Inl (LockAcquisitionFailure (LockTimeout 0)),
           \<lparr>flag = [False, True], turn = 1,
            stats = [0 \<mapsto> \<lparr>entries = 0, wait_time = 0, fails = 1\<rparr>, 1 \<mapsto> ProcessStats_init],
            lock_timeout = 5\<rparr>, [])"
    by (simp add: lock_def wait_loop.simps lock_writes PetersonLock_init_def
        ProcessStats_init_def fun_upd_twist)
  show ?thesis
    using lock_unlock_frame[OF wf, of 0] run
    by (simp add: set_flag_def PetersonLock_init_def)
qed

section \<open>The protocol of \<open>lock\<close>\<close>



section \<open>SharedResource.increment\<close>

lemma finally_unlock_valid:
  "pid = 0 \<or> pid = 1 \<Longrightarrow>
   finally_unlock res S pid clk = Some (res, S\<lparr>lck := set_flag pid False (lck S)\<rparr>, clk)"
  by (elim disjE) (simp_all add: finally_unlock_def unlock_def)

lemma finally_unlock_invalid:
  "pid \<noteq> 0 \<Longrightarrow> pid \<noteq> 1 \<Longrightarrow>
   finally_unlock res S pid clk = Some (Inl (InvalidProcessId pid), S\<lparr>lck := lck S\<rparr>, clk)"
  by (simp add: finally_unlock_def unlock_def)

text \<open>
  C6 (critical section). When \<open>lock\<close> succeeds inside \<open>increment\<close>, the call writes the
  old value plus the amount, appends exactly one log entry with the identity, the operation
  name, the amount, the timestamp and the duration, and releases the lock. When the addition
  fails (an amount that is not a number), the lock is released all the same, the value and
  the log are untouched and the original \<open>TypeError\<close> reaches the caller.
\<close>

theorem increment_critical_section:
  assumes "wf_lock (lck S)" "pid = 0 \<or> pid = 1"
    and "lock (lck S) pid c1 = Some (Inr b, L1, c2)"
  shows "increment S pid (PyInt a) (t0 # c1) =
           (case c2 of
              t1 # t2 # c3 \<Rightarrow>
                Some (Inr (),
                      \<lparr>val = val S + a, lck = set_flag pid False L1,
                       access_log = access_log S @
                         [\<lparr>process_id = pid, operation = ''increment'', amount = PyInt a,
                           timestamp = t1, duration = t2 - t0\<rparr>]\<rparr>, c3)
            | _ \<Rightarrow> None) \<and>
         increment S pid PyOther (t0 # c1) =
           Some (Inl TypeError,
                 \<lparr>val = val S, lck = set_flag pid False L1, access_log = access_log S\<rparr>, c2) \<and>
         \<not> flag (set_flag pid False L1) ! nat pid"
proof (intro conjI)
  from assms(1) have len: "length (flag (lck S)) = 2" by (simp add: wf_lock_def)
  have "length (flag L1) = 2"
    using lock_result[OF assms(2) len assms(3)] len by (auto simp: lock_writes)
  with assms(2) have "nat pid < length (flag L1)" by auto
  then show "\<not> flag (set_flag pid False L1) ! nat pid" by (simp add: set_flag_def)
  show "increment S pid PyOther (t0 # c1) =
           Some (Inl TypeError,
                 \<lparr>val = val S, lck = set_flag pid False L1, access_log = access_log S\<rparr>, c2)"
    using assms(3) finally_unlock_valid[OF assms(2)] by (simp add: increment_def)
  show "increment S pid (PyInt a) (t0 # c1) =
           (case c2 of
              t1 # t2 # c3 \<Rightarrow>
                Some (Inr (),
                      \<lparr>val = val S + a, lck = set_flag pid False L1,
                       access_log = access_log S @
                         [\<lparr>process_id = pid, operation = ''increment'', amount = PyInt a,
                           timestamp = t1, duration = t2 - t0\<rparr>]\<rparr>, c3)
            | _ \<Rightarrow> None)"
    using assms(3) finally_unlock_valid[OF assms(2)]
    by (simp add: increment_def split: list.split)
qed

theorem increment_critical_section_witness:
  "increment SharedResource_init 0 (PyInt 3) [0, 0, 2, 3, 4] =
     Some (Inr (),
           \<lparr>val = 0 + 3,
            lck = set_flag 0 False
                \<lparr>flag = [True, False], turn = 1,
                 stats = [0 \<mapsto> \<lparr>entries = 1, wait_time = 2, fails = 0\<rparr>, 1 \<mapsto> ProcessStats_init],
                 lock_timeout = 5\<rparr>,
            access_log = [] @
              [\<lparr>process_id = 0, operation = ''increment'', amount = PyInt 3,
                timestamp = 3, duration = 4 - 0\<rparr>]\<rparr>, []) \<and>
   increment SharedResource_init 0 PyOther [0, 0, 2, 3, 4] =
     Some (Inl TypeError,
           \<lparr>val = 0,
            lck = set_flag 0 False
                \<lparr>flag = [True, False], turn = 1,
                 stats = [0 \<mapsto> \<lparr>entries = 1, wait_time = 2, fails = 0\<rparr>, 1 \<mapsto> ProcessStats_init],
                 lock_timeout = 5\<rparr>,
            access_log = []\<rparr>, [3, 4])"
proof -
  have wf: "wf_lock (lck SharedResource_init)"
    by (simp add: SharedResource_init_def wf_lock_init)
  have zero: "(0::int) = 0 \<or> (0::int) = 1" by simp
  have run: "lock (lck SharedResource_init) 0 [0, 2, 3, 4] =
     Some (Inr True,
           \<lparr>flag = [True, False], turn = 1,
            stats = [0 \<mapsto> \<lparr>entries = 1, wait_time = 2, fails = 0\<rparr>, 1 \<mapsto> ProcessStats_init],
            lock_timeout = 5\<rparr>, [3, 4])"
    by (simp add: SharedResource_init_def lock_def wait_loop.simps lock_writes
        PetersonLock_init_def ProcessStats_init_def fun_upd_twist)
  from increment_critical_section[OF wf zero run, of 3 0]
  show ?thesis by (simp add: SharedResource_init_def)
qed

text \<open>
  C7 (failed acquisition). When \<open>lock\<close> fails inside \<open>increment\<close>, for an invalid identity
  or by timeout, the caller receives that error, and the value and the log are as before:
  only the lock field can differ. For an invalid identity the error that reaches the caller
  is the one \<open>unlock\<close> raises in the \<open>finally\<close> clause, which has the same message as the
  one of \<open>lock\<close>. In particular \<open>increment(2)\<close> raises the invalid-identity error and
  leaves the resource as it was.
\<close>

theorem increment_acquire_fails:
  assumes "lock (lck S) pid c1 = Some (Inl e, L1, c2)"
  shows "increment S pid amt (t0 # c1) = Some (Inl e, S\<lparr>lck := snd (unlock L1 pid)\<rparr>, c2) \<and>
         val (S\<lparr>lck := snd (unlock L1 pid)\<rparr>) = val S \<and>
         access_log (S\<lparr>lck := snd (unlock L1 pid)\<rparr>) = access_log S \<and>
         increment S 2 (PyInt 1) (t0 # c1) = Some (Inl (InvalidProcessId 2), S, c1)"
proof (intro conjI)
  show "increment S 2 (PyInt 1) (t0 # c1) = Some (Inl (InvalidProcessId 2), S, c1)"
    by (simp add: increment_def lock_def finally_unlock_def unlock_def)
  show "increment S pid amt (t0 # c1) = Some (Inl e, S\<lparr>lck := snd (unlock L1 pid)\<rparr>, c2)"
  proof (cases "pid = 0 \<or> pid = 1")
    case True
    then have "snd (unlock L1 pid) = set_flag pid False L1" by (auto simp: unlock_def)
    with assms finally_unlock_valid[OF True] show ?thesis by (simp add: increment_def)
  next
    case False
    then have inv: "pid \<noteq> 0" "pid \<noteq> 1" by auto
    with assms have "e = InvalidProcessId pid" by (simp add: lock_def)
    moreover from inv have "snd (unlock L1 pid) = L1" by (simp add: unlock_def)
    ultimately show ?thesis
      using assms finally_unlock_invalid[OF inv] by (simp add: increment_def)
  qed
qed simp_all

theorem increment_acquire_fails_witness:
  "increment SharedResource_init 2 (PyInt 1) [0] =
     Some (Inl (InvalidProcessId 2), SharedResource_init, []) \<and>
   increment (SharedResource_init\<lparr>lck := set_flag 1 True PetersonLock_init\<rparr>) 0 (PyInt 1) [0, 0, 6] =
     Some (Inl (LockAcquisitionFailure (LockTimeout 0)),
           \<lparr>val = 0,
            lck = \<lparr>flag = [False, True], turn = 1,
                   stats = [0 \<mapsto> \<lparr>entries = 0, wait_time = 0, fails = 1\<rparr>, 1 \<mapsto> ProcessStats_init],
                   lock_timeout = 5\<rparr>,
            access_log = []\<rparr>, [])"
proof -
  let ?S = "SharedResource_init\<lparr>lck := set_flag 1 True PetersonLock_init\<rparr>"
  have run: "lock (lck ?S) 0 [0, 6] =
     Some (Inl (LockAcquisitionFailure (LockTimeout 0)),
           \<lparr>flag = [False, True], turn = 1,
            stats = [0 \<mapsto> \<lparr>entries = 0, wait_time = 0, fails = 1\<rparr>, 1 \<mapsto> ProcessStats_init],
            lock_timeout = 5\<rparr>, [])"
    by (simp add: lock_def wait_loop.simps lock_writes PetersonLock_init_def
        ProcessStats_init_def fun_upd_twist)
  have bad: "lock (lck SharedResource_init) 2 [] =
     Some (Inl (InvalidProcessId 2), lck SharedResource_init, [])"
    by (simp add: lock_def)
  from increment_acquire_fails[OF bad, of "PyInt 1" 0]
  have "increment SharedResource_init 2 (PyInt 1) [0] =
     Some (Inl (InvalidProcessId 2), SharedResource_init, [])" by blast
  moreover from increment_acquire_fails[OF run, of "PyInt 1" 0]
  have "increment ?S 0 (PyInt 1) [0, 0, 6] =
     Some (Inl (LockAcquisitionFailure (LockTimeout 0)),
           \<lparr>val = 0,
            lck = \<lparr>flag = [False, True], turn = 1,
                   stats = [0 \<mapsto> \<lparr>entries = 0, wait_time = 0, fails = 1\<rparr>, 1 \<mapsto> ProcessStats_init],
                   lock_timeout = 5\<rparr>,
            access_log = []\<rparr>, [])"
    by (simp add: unlock_def set_flag_def SharedResource_init_def)
  ultimately show ?thesis by blast
qed

section \<open>Serialized increments\<close>

lemma increment_success_val:
  assumes "increment S pid amt clk = Some (Inr u, S', clk')"
  shows "amt = PyInt (int_of amt) \<and> val S' = val S + int_of amt"
proof (cases "pid = 0 \<or> pid = 1")
  case False
  then have "lock (lck S) pid c = Some (Inl (InvalidProcessId pid), lck S, c)" for c
    by (simp add: lock_def)
  with assms False show ?thesis
    by (cases clk) (simp_all add: increment_def finally_unlock_def unlock_def)
next
  case True
  note fin = finally_unlock_valid[OF True]
  from assms show ?thesis
    by (cases clk; cases amt)
       (auto simp: increment_def fin int_of_def
             split: option.splits sum.splits list.splits)
qed


lemma run_increments_val:
  assumes "run_increments S calls clk = Some (rs, S', clk')" "\<forall>r\<in>set rs. r = Inr ()"
  shows "val S' = val S + sum_list (map (\<lambda>c. int_of (snd c)) calls)"
  using assms
proof (induction calls arbitrary: S clk rs)
  case Nil
  then show ?case by simp
next
  case (Cons c calls)
  obtain pid amt where c: "c = (pid, amt)" by (cases c)
  from Cons.prems(1) c obtain r S1 c1 rs1 where
    one: "increment S pid amt clk = Some (r, S1, c1)" and
    more: "run_increments S1 calls c1 = Some (rs1, S', clk')" and
    rs: "rs = r # rs1"
    by (auto split: option.splits)
  from Cons.prems(2) rs have r: "r = Inr ()" and all: "\<forall>r\<in>set rs1. r = Inr ()" by auto
  from increment_success_val one r have "val S1 = val S + int_of amt" by blast
  moreover from Cons.IH[OF more all] have "val S' = val S1 + sum_list (map (\<lambda>c. int_of (snd c)) calls)" .
  ultimately show ?case using c by simp
qed

lemma sum_list_shuffles:
  "zs \<in> shuffles xs ys \<Longrightarrow>
   sum_list (map f zs) = sum_list (map f xs) + (sum_list (map f ys) :: int)"
proof (induction xs ys arbitrary: zs rule: shuffles.induct)
  case (1 ys)
  then show ?case by simp
next
  case (2 xs)
  then show ?case by simp
next
  case (3 x xs y ys)
  from "3.prems" consider zs' where "zs = x # zs'" "zs' \<in> shuffles xs (y # ys)"
    | zs' where "zs = y # zs'" "zs' \<in> shuffles (x # xs) ys"
    by auto
  then show ?case
  proof cases
    case 1
    with "3.IH"(1)[of zs'] show ?thesis by simp
  next
    case 2
    with "3.IH"(2)[of zs'] show ?thesis by simp
  qed
qed

text \<open>
  C4 (sum of the serialized increments). Let identity 0 make increments with the amounts
  \<open>as\<close> and identity 1 with the amounts \<open>bs\<close>, and let the calls run one after the other
  in any order that keeps the order of each identity. If every call succeeds, the final
  value is the initial value plus the sum of \<open>as\<close> plus the sum of \<open>bs\<close>. With three
  increments of 1 each from the initial resource the final value is 6.
\<close>

theorem serialized_increments_sum:
  assumes "calls \<in> shuffles (map (\<lambda>a. (0, PyInt a)) as) (map (\<lambda>b. (1, PyInt b)) bs)"
    and "run_increments S calls clk = Some (rs, S', clk')"
    and "\<forall>r\<in>set rs. r = Inr ()"
  shows "val S' = val S + sum_list as + sum_list bs"
proof -
  have "val S' = val S + sum_list (map (\<lambda>c. int_of (snd c)) calls)"
    using run_increments_val[OF assms(2,3)] .
  also have "sum_list (map (\<lambda>c. int_of (snd c)) calls) =
      sum_list (map (\<lambda>c. int_of (snd c)) (map (\<lambda>a. (0::int, PyInt a)) as)) +
      sum_list (map (\<lambda>c. int_of (snd c)) (map (\<lambda>b. (1::int, PyInt b)) bs))"
    using sum_list_shuffles[OF assms(1)] .
  also have "map (\<lambda>c. int_of (snd c)) (map (\<lambda>a. (0::int, PyInt a)) as) = as"
    by (induction as) (simp_all add: int_of_def)
  also have "map (\<lambda>c. int_of (snd c)) (map (\<lambda>b. (1::int, PyInt b)) bs) = bs"
    by (induction bs) (simp_all add: int_of_def)
  finally show ?thesis by simp
qed

theorem serialized_increments_sum_witness:
  "\<exists>S'. run_increments SharedResource_init
           [(0, PyInt 1), (1, PyInt 1), (1, PyInt 1), (0, PyInt 1), (0, PyInt 1), (1, PyInt 1)]
           [0, 0, 1, 1, 1, 2, 2, 3, 3, 3, 4, 4, 5, 5, 5, 6, 6, 7, 7, 7, 8, 8, 9, 9, 9, 10, 10, 11, 11, 11] =
         Some ([Inr (), Inr (), Inr (), Inr (), Inr (), Inr ()], S', []) \<and>
       val S' = 6"
proof -
  let ?calls = "[(0::int, PyInt 1), (1, PyInt 1), (1, PyInt 1), (0, PyInt 1), (0, PyInt 1), (1, PyInt 1)]"
  let ?clk = "[0, 0, 1, 1, 1, 2, 2, 3, 3, 3, 4, 4, 5, 5, 5, 6, 6, 7, 7, 7, 8, 8, 9, 9, 9, 10, 10, 11, 11, 11::real]"
  have sh: "?calls \<in> shuffles (map (\<lambda>a. (0, PyInt a)) [1, 1, 1]) (map (\<lambda>b. (1, PyInt b)) [1, 1, 1])"
    by (simp add: Cons_in_shuffles_iff)
  have "\<exists>S'. run_increments SharedResource_init ?calls ?clk =
          Some ([Inr (), Inr (), Inr (), Inr (), Inr (), Inr ()], S', [])"
    by (simp add: increment_def finally_unlock_def unlock_def lock_def wait_loop.simps
        lock_writes SharedResource_init_def PetersonLock_init_def)
  then obtain S' where run: "run_increments SharedResource_init ?calls ?clk =
          Some ([Inr (), Inr (), Inr (), Inr (), Inr (), Inr ()], S', [])" by blast
  have ok: "\<forall>r\<in>set [Inr (), Inr (), Inr (), Inr (), Inr (), Inr ()]. r = (Inr () :: error + unit)"
    by simp
  from serialized_increments_sum[OF sh run ok] have "val S' = 6"
    by (simp add: SharedResource_init_def)
  with run show ?thesis by blast
qed

section \<open>Statistics\<close>

lemma lock_counts:
  assumes "wf_lock L" "lock L pid clk = Some (r, L', clk')"
  shows "wf_lock L' \<and>
         attempts_done L' i = attempts_done L i + (if i = pid \<and> (pid = 0 \<or> pid = 1) then 1 else 0)"
proof (cases "pid = 0 \<or> pid = 1")
  case False
  with assms show ?thesis by (auto simp: lock_def)
next
  case True
  from assms(1) have len: "length (flag L) = 2" by (simp add: wf_lock_def)
  from lock_result[OF True len assms(2)] consider
    (enter) "L' = add_wait_time pid (snd (hd clk, hd (tl clk)) - hd clk)
                    (add_entries pid ((set_flag pid True L)\<lparr>turn := 1 - pid\<rparr>))"
    | (timeout) "L' = set_flag pid False
                 (add_fails pid (set_flag pid False ((set_flag pid True L)\<lparr>turn := 1 - pid\<rparr>)))"
    by auto
  then show ?thesis
  proof cases
    case enter
    have "wf_lock L'" unfolding enter using assms(1) True by (intro wf_lock_intros)
    moreover have "attempts_done L' i = attempts_done L i + (if i = pid then 1 else 0)"
      unfolding enter by (simp add: attempts_done_def lock_writes)
    ultimately show ?thesis using True by simp
  next
    case timeout
    have "wf_lock L'" unfolding timeout using assms(1) True by (intro wf_lock_intros)
    moreover have "attempts_done L' i = attempts_done L i + (if i = pid then 1 else 0)"
      unfolding timeout by (simp add: attempts_done_def lock_writes)
    ultimately show ?thesis using True by simp
  qed
qed

lemma run_operations_counts:
  assumes "wf_lock L" "run_operations L ops clk = Some (L', clk')" "i = 0 \<or> i = 1"
  shows "wf_lock L' \<and> attempts_done L' i \<le> attempts_done L i + int (count_list ops (Lock i))"
  using assms(1,2)
proof (induction ops arbitrary: L clk)
  case Nil
  then show ?case by simp
next
  case (Cons op ops)
  show ?case
  proof (cases op)
    case (Lock pid)
    with Cons.prems(2) obtain r L1 c1 where
      one: "lock L pid clk = Some (r, L1, c1)" and
      more: "run_operations L1 ops c1 = Some (L', clk')"
      by (auto split: option.splits)
    from lock_counts[OF Cons.prems(1) one, of i]
    have wf1: "wf_lock L1" and
      n1: "attempts_done L1 i = attempts_done L i + (if i = pid \<and> (pid = 0 \<or> pid = 1) then 1 else 0)"
      by simp_all
    from Cons.IH[OF wf1 more] n1 Lock assms(3) show ?thesis by auto
  next
    case (Unlock pid)
    with Cons.prems(2) have more: "run_operations (snd (unlock L pid)) ops clk = Some (L', clk')"
      by simp
    have wf1: "wf_lock (snd (unlock L pid))"
      using Cons.prems(1) by (simp add: unlock_def wf_lock_set_flag)
    have "attempts_done (snd (unlock L pid)) i = attempts_done L i"
      by (simp add: unlock_def attempts_done_def set_flag_def)
    with Cons.IH[OF wf1 more] Unlock show ?thesis by simp
  next
    case GetStats
    with Cons.prems(2) have more: "run_operations L ops clk = Some (L', clk')"
      by (simp add: get_stats_def)
    from Cons.IH[OF Cons.prems(1) more] GetStats show ?thesis by simp
  qed
qed

text \<open>
  C9 (statistics). After any sequence of \<open>lock\<close>, \<open>unlock\<close> and \<open>get_stats\<close> calls on a
  new lock, \<open>entries\<close> plus \<open>fails\<close> of an identity is at most the number of \<open>lock\<close> calls
  made with that identity. \<open>get_stats\<close> reports for an identity its \<open>entries\<close> and
  \<open>fails\<close> and, as the average wait, \<open>wait_time\<close> divided by \<open>entries\<close> when \<open>entries\<close>
  is positive and 0 when it is 0; the lock object is unchanged by the call.
\<close>

theorem statistics_consistent:
  assumes "run_operations PetersonLock_init ops clk = Some (L, clk')" "i = 0 \<or> i = 1"
  shows "entries (the (stats L i)) + fails (the (stats L i)) \<le> int (count_list ops (Lock i)) \<and>
         (\<exists>st. stats L i = Some st \<and>
            (\<exists>v. fst (get_stats L) i = Some v \<and>
               view_entries v = entries st \<and> view_fails v = fails st \<and>
               (entries st > 0 \<longrightarrow> avg_wait_time v = wait_time st / real_of_int (entries st)) \<and>
               (entries st = 0 \<longrightarrow> avg_wait_time v = 0))) \<and>
         snd (get_stats L) = L"
proof (intro conjI)
  from run_operations_counts[OF wf_lock_init assms]
  have wf: "wf_lock L" and
    le: "attempts_done L i \<le> attempts_done PetersonLock_init i + int (count_list ops (Lock i))"
    by simp_all
  have "attempts_done PetersonLock_init i = 0"
    using assms(2) by (auto simp: attempts_done_def PetersonLock_init_def ProcessStats_init_def)
  with le show "entries (the (stats L i)) + fails (the (stats L i)) \<le> int (count_list ops (Lock i))"
    by (simp add: attempts_done_def)
  from wf assms(2) have "i \<in> dom (stats L)" by (auto simp: wf_lock_def)
  then obtain st where st: "stats L i = Some st" by blast
  then have "fst (get_stats L) i = Some (view_of st)" by (simp add: get_stats_def)
  moreover have "view_entries (view_of st) = entries st" "view_fails (view_of st) = fails st"
    "entries st > 0 \<longrightarrow> avg_wait_time (view_of st) = wait_time st / real_of_int (entries st)"
    "entries st = 0 \<longrightarrow> avg_wait_time (view_of st) = 0"
    by (simp_all add: view_of_def)
  ultimately show "\<exists>st. stats L i = Some st \<and>
            (\<exists>v. fst (get_stats L) i = Some v \<and>
               view_entries v = entries st \<and> view_fails v = fails st \<and>
               (entries st > 0 \<longrightarrow> avg_wait_time v = wait_time st / real_of_int (entries st)) \<and>
               (entries st = 0 \<longrightarrow> avg_wait_time v = 0))"
    using st by blast
  show "snd (get_stats L) = L" by (simp add: get_stats_def)
qed

theorem statistics_consistent_witness:
  "\<exists>L. run_operations PetersonLock_init
          [Lock 0, Unlock 0, Lock 1, Lock 0, Lock 2, GetStats] [0, 2, 2, 3, 3, 9] = Some (L, []) \<and>
        stats L 0 = Some \<lparr>entries = 1, wait_time = 2, fails = 1\<rparr> \<and>
        entries (the (stats L 0)) + fails (the (stats L 0)) \<le>
          int (count_list [Lock 0, Unlock 0, Lock 1, Lock 0, Lock 2, GetStats] (Lock 0)) \<and>
        (\<exists>v. fst (get_stats L) 0 = Some v \<and> avg_wait_time v = 2) \<and>
        snd (get_stats L) = L"
proof -
  let ?ops = "[Lock 0, Unlock 0, Lock 1, Lock 0, Lock 2, GetStats]"
  have "\<exists>L. run_operations PetersonLock_init ?ops [0, 2, 2, 3, 3, 9] = Some (L, []) \<and>
          stats L 0 = Some \<lparr>entries = 1, wait_time = 2, fails = 1\<rparr>"
    by (simp add: lock_def unlock_def get_stats_def wait_loop.simps lock_writes
        PetersonLock_init_def ProcessStats_init_def)
  then obtain L where run: "run_operations PetersonLock_init ?ops [0, 2, 2, 3, 3, 9] = Some (L, [])"
    and st: "stats L 0 = Some \<lparr>entries = 1, wait_time = 2, fails = 1\<rparr>" by blast
  have zero: "(0::int) = 0 \<or> (0::int) = 1" by simp
  note a = statistics_consistent[OF run zero]
  from a have le: "entries (the (stats L 0)) + fails (the (stats L 0)) \<le> int (count_list ?ops (Lock 0))"
    by blast
  from a st obtain v where v: "fst (get_stats L) 0 = Some v"
    "entries \<lparr>entries = 1, wait_time = 2, fails = 1\<rparr> > 0 \<longrightarrow>
       avg_wait_time v = wait_time \<lparr>entries = 1, wait_time = 2, fails = 1\<rparr> /
         real_of_int (entries \<lparr>entries = 1, wait_time = 2, fails = 1\<rparr>)"
    by auto
  then have "avg_wait_time v = 2" by simp
  with v(1) have "\<exists>v. fst (get_stats L) 0 = Some v \<and> avg_wait_time v = 2" by blast
  moreover from a have "snd (get_stats L) = L" by blast
  ultimately show ?thesis using run st le by blast
qed

end
